theory Spec2Isabelle
  imports Main "HOL-Library.AList"
begin

section \<open>Python values\<close>

text \<open>
  The script \<^verbatim>\<open>scripts/update_lrs_tiers.py\<close> works on the result of \<^verbatim>\<open>json.load\<close>:
  dictionaries with string keys (insertion ordered), lists, strings, integers of any
  size, IEEE 754 binary64 floats, booleans and \<^verbatim>\<open>None\<close>.
\<close>

subsection \<open>Floats: IEEE 754 binary64, round to nearest, ties to even\<close>

text \<open>
  A finite float \<open>Fin s m e\<close> has the value \<open>(-1)^s * m * 2^e\<close>, in the canonical form
  of the format: \<open>2^52 \<le> m < 2^53\<close> and \<open>-1074 \<le> e \<le> 971\<close> for a normal number,
  \<open>m < 2^52\<close> and \<open>e = -1074\<close> for a subnormal one or a zero.
\<close>

datatype pyfloat = Fin bool int int | Inf bool | NaN

function bit_length :: "int \<Rightarrow> int" where
  "bit_length n = (if n \<le> 0 then 0 else 1 + bit_length (n div 2))"
  by pat_completeness auto
termination
  by (relation "measure nat") auto

declare bit_length.simps [simp del]

text \<open>
  \<open>fl_round s n d\<close> is the float nearest to the rational \<open>(-1)^s * n / d\<close>, for \<open>n \<ge> 0\<close>
  and \<open>d > 0\<close>: an infinity when the rounded value leaves the range.
\<close>

definition fl_round :: "bool \<Rightarrow> int \<Rightarrow> int \<Rightarrow> pyfloat" where
  "fl_round s n d =
     (if n = 0 then Fin s 0 (- 1074)
      else
        let k = bit_length n - bit_length d;
            lg = (if d * 2 ^ nat k \<le> n * 2 ^ nat (- k) then k else k - 1);
            e = max (lg - 52) (- 1074);
            num = n * 2 ^ nat (- e);
            den = d * 2 ^ nat e;
            m0 = num div den;
            r = num mod den;
            m = (if 2 * r < den then m0
                 else if den < 2 * r then m0 + 1
                 else if even m0 then m0 else m0 + 1);
            e' = (if m = 2 ^ 53 then e + 1 else e);
            m' = (if m = 2 ^ 53 then 2 ^ 52 else m)
        in if 971 < e' then Inf s else Fin s m' e')"

text \<open>A float literal of the source, \<^verbatim>\<open>0.8\<close> or \<^verbatim>\<open>5e-05\<close>, is the float nearest to the decimal.\<close>

definition fl_lit :: "int \<Rightarrow> int \<Rightarrow> pyfloat" where
  "fl_lit n d = fl_round False n d"

text \<open>The value \<open>m * 2^e\<close> with a signed \<open>m\<close>, rounded.\<close>

definition fl_of_dyadic :: "bool \<Rightarrow> int \<Rightarrow> int \<Rightarrow> pyfloat" where
  "fl_of_dyadic s m e = fl_round s (m * 2 ^ nat e) (2 ^ nat (- e))"

fun fl_mul :: "pyfloat \<Rightarrow> pyfloat \<Rightarrow> pyfloat" where
  "fl_mul NaN _ = NaN"
| "fl_mul _ NaN = NaN"
| "fl_mul (Inf s) (Inf t) = Inf (s \<noteq> t)"
| "fl_mul (Inf s) (Fin t m e) = (if m = 0 then NaN else Inf (s \<noteq> t))"
| "fl_mul (Fin s m e) (Inf t) = (if m = 0 then NaN else Inf (s \<noteq> t))"
| "fl_mul (Fin s m e) (Fin t n f) = fl_of_dyadic (s \<noteq> t) (m * n) (e + f)"

definition signed :: "bool \<Rightarrow> int \<Rightarrow> int" where
  "signed s m = (if s then - m else m)"

fun fl_add :: "pyfloat \<Rightarrow> pyfloat \<Rightarrow> pyfloat" where
  "fl_add NaN _ = NaN"
| "fl_add _ NaN = NaN"
| "fl_add (Inf s) (Inf t) = (if s = t then Inf s else NaN)"
| "fl_add (Inf s) (Fin t m e) = Inf s"
| "fl_add (Fin s m e) (Inf t) = Inf t"
| "fl_add (Fin s m e) (Fin t n f) =
     (let g = min e f;
          v = signed s m * 2 ^ nat (e - g) + signed t n * 2 ^ nat (f - g)
      in if v = 0 then Fin (s \<and> t) 0 (- 1074)
         else fl_of_dyadic (v < 0) \<bar>v\<bar> g)"

fun fl_neg :: "pyfloat \<Rightarrow> pyfloat" where
  "fl_neg NaN = NaN"
| "fl_neg (Inf s) = Inf (\<not> s)"
| "fl_neg (Fin s m e) = Fin (\<not> s) m e"

definition fl_sub :: "pyfloat \<Rightarrow> pyfloat \<Rightarrow> pyfloat" where
  "fl_sub a b = fl_add a (fl_neg b)"

text \<open>
  Comparison is exact, also between an integer and a float: both sides are read as
  \<open>m * 2^e\<close> with a signed \<open>m\<close>, or as an infinity. A comparison with NaN is false.
\<close>

datatype extnum = NegInf | Dy int int | PosInf | NotANumber

fun ext_of_float :: "pyfloat \<Rightarrow> extnum" where
  "ext_of_float NaN = NotANumber"
| "ext_of_float (Inf s) = (if s then NegInf else PosInf)"
| "ext_of_float (Fin s m e) = Dy (signed s m) e"

fun ext_lt :: "extnum \<Rightarrow> extnum \<Rightarrow> bool" where
  "ext_lt NotANumber _ = False"
| "ext_lt _ NotANumber = False"
| "ext_lt _ NegInf = False"
| "ext_lt NegInf _ = True"
| "ext_lt PosInf _ = False"
| "ext_lt _ PosInf = True"
| "ext_lt (Dy m e) (Dy n f) =
     (let g = min e f in m * 2 ^ nat (e - g) < n * 2 ^ nat (f - g))"

text \<open>
  \<^verbatim>\<open>float(i)\<close> as the mixed arithmetic of Python does it: correctly rounded, and
  OverflowError when the integer is beyond the range of the format.
\<close>

definition float_of_int :: "int \<Rightarrow> pyfloat option" where
  "float_of_int i =
     (case fl_round (i < 0) \<bar>i\<bar> 1 of Inf _ \<Rightarrow> None | x \<Rightarrow> Some x)"

subsection \<open>Values, errors\<close>

datatype pyval =
    PNone
  | PBool bool
  | PInt int
  | PFloat pyfloat
  | PStr string
  | PList "pyval list"
  | PDict "(string \<times> pyval) list"

text \<open>
  A dictionary is the list of its items in iteration order, with distinct keys. A
  string is the list of its code points, each below 256.
\<close>

type_synonym pydict = "(string \<times> pyval) list"

datatype error = TypeError | AttributeError | OverflowError | KeyError

definition and_then :: "error + 'a \<Rightarrow> ('a \<Rightarrow> error + 'b) \<Rightarrow> error + 'b" where
  "and_then r f = (case r of Inl e \<Rightarrow> Inl e | Inr x \<Rightarrow> f x)"

subsection \<open>Dictionaries\<close>

text \<open>\<^verbatim>\<open>k in d\<close>, \<^verbatim>\<open>d.get(k, default)\<close> and \<^verbatim>\<open>d[k] = v\<close>; the assignment keeps the
  position of a key that is there and appends a new one (\<^const>\<open>AList.update\<close>).\<close>

definition has_key :: "pydict \<Rightarrow> string \<Rightarrow> bool" where
  "has_key d k = (map_of d k \<noteq> None)"

definition dict_get :: "pydict \<Rightarrow> string \<Rightarrow> pyval \<Rightarrow> pyval" where
  "dict_get d k dflt = (case map_of d k of None \<Rightarrow> dflt | Some v \<Rightarrow> v)"

definition dict_set :: "string \<Rightarrow> pyval \<Rightarrow> pydict \<Rightarrow> pydict" where
  "dict_set k v d = AList.update k v d"

text \<open>The display \<^verbatim>\<open>{"xxs": x, **d}\<close>: a new dictionary that starts with \<^verbatim>\<open>xxs\<close> and then
  receives the items of \<open>d\<close> in order, one assignment each.\<close>

definition prepend_xxs :: "pyval \<Rightarrow> pydict \<Rightarrow> pydict" where
  "prepend_xxs x d = foldl (\<lambda>acc (k, v). dict_set k v acc) [(''xxs'', x)] d"

subsection \<open>\<^verbatim>\<open>str\<close> and \<^verbatim>\<open>repr\<close>\<close>

function dec_digits :: "int \<Rightarrow> string" where
  "dec_digits n =
     (if n < 10 then [char_of (48 + n)]
      else dec_digits (n div 10) @ [char_of (48 + n mod 10)])"
  by pat_completeness auto
termination
  by (relation "measure nat") auto

declare dec_digits.simps [simp del]

definition int_repr :: "int \<Rightarrow> string" where
  "int_repr i = (if i < 0 then CHR ''-'' # dec_digits (- i) else dec_digits i)"

definition hex_digit :: "nat \<Rightarrow> char" where
  "hex_digit n = ''0123456789abcdef'' ! n"

text \<open>
  \<^verbatim>\<open>repr\<close> of a string: in single quotes, unless the string has a single quote and no
  double quote; the quote and the backslash are escaped, so are tab, newline, carriage
  return, and every code point that is not printable goes as \<^verbatim>\<open>\xhh\<close>.
\<close>

definition escape_char :: "char \<Rightarrow> char \<Rightarrow> string" where
  "escape_char q c =
     (let n = (of_char c :: nat) in
      if c = q \<or> c = CHR 0x5C then [CHR 0x5C, c]
      else if c = CHR 0x09 then [CHR 0x5C, CHR ''t'']
      else if c = CHR 0x0A then [CHR 0x5C, CHR ''n'']
      else if c = CHR 0x0D then [CHR 0x5C, CHR ''r'']
      else if n < 32 \<or> n = 127 \<or> (128 \<le> n \<and> n \<le> 160) \<or> n = 173
        then [CHR 0x5C, CHR ''x'', hex_digit (n div 16), hex_digit (n mod 16)]
      else [c])"

definition str_repr :: "string \<Rightarrow> string" where
  "str_repr s =
     (let q = (if CHR 0x27 \<in> set s \<and> CHR 0x22 \<notin> set s then CHR 0x22 else CHR 0x27)
      in q # concat (map (escape_char q) s) @ [q])"

fun join_comma :: "string list \<Rightarrow> string" where
  "join_comma [] = []"
| "join_comma [x] = x"
| "join_comma (x # y # ys) = x @ '', '' @ join_comma (y # ys)"

text \<open>
  \<^verbatim>\<open>repr\<close> of a float: the shortest decimal that reads back as the same float, the
  nearest one when several of that length do. With \<open>n\<close> digits the two candidates are
  the neighbours \<open>lo\<close> and \<open>lo + 1\<close> of the value on the grid \<open>10^p\<close>; 17 digits always
  suffice. The value of the float is \<open>num / den\<close>, and \<open>10^k \<le> num / den < 10^(k+1)\<close>.
\<close>

fun scale_up :: "int \<Rightarrow> int \<Rightarrow> nat \<Rightarrow> nat \<Rightarrow> nat" where
  "scale_up num den j 0 = j"
| "scale_up num den j (Suc fuel) =
     (if den \<le> num * 10 ^ j then j else scale_up num den (Suc j) fuel)"

definition dec_exponent :: "int \<Rightarrow> int \<Rightarrow> int" where
  "dec_exponent num den =
     (if den \<le> num then int (length (dec_digits (num div den))) - 1
      else - int (scale_up num den 1 400))"

definition candidate :: "pyfloat \<Rightarrow> int \<Rightarrow> int \<Rightarrow> int \<Rightarrow> nat \<Rightarrow> (int \<times> int) option" where
  "candidate x num den k n =
     (let p = k - int n + 1;
          N = num * 10 ^ nat (- p);
          D = den * 10 ^ nat p;
          lo = N div D;
          r = N mod D;
          ok_lo = (fl_round False (lo * 10 ^ nat p) (10 ^ nat (- p)) = x);
          ok_hi = (fl_round False ((lo + 1) * 10 ^ nat p) (10 ^ nat (- p)) = x)
      in if ok_lo \<and> ok_hi then Some (if 2 * r \<le> D then lo else lo + 1, p)
         else if ok_lo then Some (lo, p)
         else if ok_hi then Some (lo + 1, p)
         else None)"

definition shortest_digits :: "int \<Rightarrow> int \<Rightarrow> string \<times> int" where
  "shortest_digits m e =
     (let num = m * 2 ^ nat e;
          den = 2 ^ nat (- e);
          k = dec_exponent num den;
          (c, p) = (case List.map_filter (candidate (Fin False m e) num den k) [1..<18] of
                      [] \<Rightarrow> (num * 10 ^ nat (16 - k) div (den * 10 ^ nat (k - 16)), k - 16)
                    | cp # _ \<Rightarrow> cp);
          ds = dec_digits c
      in (rev (dropWhile (\<lambda>d. d = CHR ''0'') (rev ds)), int (length ds) + p))"

text \<open>
  The layout of \<^verbatim>\<open>repr\<close>: the digits \<open>ds\<close> stand for \<open>0.ds * 10^decpt\<close>; scientific
  notation when \<open>decpt \<le> -4\<close> or \<open>decpt > 16\<close>, with an exponent of two digits at least.
\<close>

definition float_layout :: "string \<Rightarrow> int \<Rightarrow> string" where
  "float_layout ds decpt =
     (if decpt \<le> - 4 \<or> 16 < decpt then
        hd ds # (if tl ds = [] then [] else CHR ''.'' # tl ds)
        @ [CHR ''e'', if decpt - 1 < 0 then CHR ''-'' else CHR ''+'']
        @ (if \<bar>decpt - 1\<bar> < 10 then ''0'' else []) @ dec_digits \<bar>decpt - 1\<bar>
      else if decpt \<le> 0 then ''0.'' @ replicate (nat (- decpt)) CHR ''0'' @ ds
      else if int (length ds) \<le> decpt
        then ds @ replicate (nat decpt - length ds) CHR ''0'' @ ''.0''
      else take (nat decpt) ds @ CHR ''.'' # drop (nat decpt) ds)"

fun float_repr :: "pyfloat \<Rightarrow> string" where
  "float_repr NaN = ''nan''"
| "float_repr (Inf s) = (if s then ''-inf'' else ''inf'')"
| "float_repr (Fin s m e) =
     (if s then ''-'' else []) @
     (if m = 0 then ''0.0''
      else (let (ds, decpt) = shortest_digits m e in float_layout ds decpt))"

fun py_repr :: "pyval \<Rightarrow> string" where
  "py_repr PNone = ''None''"
| "py_repr (PBool b) = (if b then ''True'' else ''False'')"
| "py_repr (PInt i) = int_repr i"
| "py_repr (PFloat x) = float_repr x"
| "py_repr (PStr s) = str_repr s"
| "py_repr (PList xs) = ''['' @ join_comma (map py_repr xs) @ '']''"
| "py_repr (PDict kvs) =
     ''{'' @ join_comma (map (\<lambda>(k, v). str_repr k @ '': '' @ py_repr v) kvs) @ ''}''"

definition py_str :: "pyval \<Rightarrow> string" where
  "py_str v = (case v of PStr s \<Rightarrow> s | _ \<Rightarrow> py_repr v)"

text \<open>\<^verbatim>\<open>needle in hay\<close> on strings.\<close>

fun starts_with :: "string \<Rightarrow> string \<Rightarrow> bool" where
  "starts_with [] hay = True"
| "starts_with (c # cs) [] = False"
| "starts_with (c # cs) (h # hs) = (c = h \<and> starts_with cs hs)"

fun str_contains :: "string \<Rightarrow> string \<Rightarrow> bool" where
  "str_contains needle [] = (needle = [])"
| "str_contains needle (h # hs) = (starts_with needle (h # hs) \<or> str_contains needle hs)"

subsection \<open>Arithmetic and comparison\<close>

text \<open>
  The script adds an integer literal to a value, subtracts one from it, multiplies a
  value by a float literal and compares a value with a number literal. With a number
  literal on one side, an operand that is not a number raises TypeError. A boolean is
  the integer 0 or 1; an integer meets a float as a float.
\<close>

datatype pynum = NInt int | NFloat pyfloat

fun as_num :: "pyval \<Rightarrow> pynum option" where
  "as_num (PBool b) = Some (NInt (if b then 1 else 0))"
| "as_num (PInt i) = Some (NInt i)"
| "as_num (PFloat x) = Some (NFloat x)"
| "as_num _ = None"

fun to_float :: "pynum \<Rightarrow> error + pyfloat" where
  "to_float (NFloat x) = Inr x"
| "to_float (NInt i) = (case float_of_int i of None \<Rightarrow> Inl OverflowError | Some x \<Rightarrow> Inr x)"

fun ext_of_num :: "pynum \<Rightarrow> extnum" where
  "ext_of_num (NInt i) = Dy i 0"
| "ext_of_num (NFloat x) = ext_of_float x"

fun num_add :: "pynum \<Rightarrow> pynum \<Rightarrow> error + pyval" where
  "num_add (NInt a) (NInt b) = Inr (PInt (a + b))"
| "num_add a b =
     and_then (to_float a) (\<lambda>x. and_then (to_float b) (\<lambda>y. Inr (PFloat (fl_add x y))))"

fun num_sub :: "pynum \<Rightarrow> pynum \<Rightarrow> error + pyval" where
  "num_sub (NInt a) (NInt b) = Inr (PInt (a - b))"
| "num_sub a b =
     and_then (to_float a) (\<lambda>x. and_then (to_float b) (\<lambda>y. Inr (PFloat (fl_sub x y))))"

fun num_mul :: "pynum \<Rightarrow> pynum \<Rightarrow> error + pyval" where
  "num_mul (NInt a) (NInt b) = Inr (PInt (a * b))"
| "num_mul a b =
     and_then (to_float a) (\<lambda>x. and_then (to_float b) (\<lambda>y. Inr (PFloat (fl_mul x y))))"

definition num_op ::
  "(pynum \<Rightarrow> pynum \<Rightarrow> error + 'a) \<Rightarrow> pyval \<Rightarrow> pyval \<Rightarrow> error + 'a" where
  "num_op f a b =
     (case (as_num a, as_num b) of (Some x, Some y) \<Rightarrow> f x y | _ \<Rightarrow> Inl TypeError)"

definition py_add :: "pyval \<Rightarrow> pyval \<Rightarrow> error + pyval" where
  "py_add = num_op num_add"

definition py_sub :: "pyval \<Rightarrow> pyval \<Rightarrow> error + pyval" where
  "py_sub = num_op num_sub"

definition py_mul :: "pyval \<Rightarrow> pyval \<Rightarrow> error + pyval" where
  "py_mul = num_op num_mul"

definition py_lt :: "pyval \<Rightarrow> pyval \<Rightarrow> error + bool" where
  "py_lt = num_op (\<lambda>x y. Inr (ext_lt (ext_of_num x) (ext_of_num y)))"

text \<open>\<^verbatim>\<open>max(a, b)\<close> keeps \<open>a\<close> unless \<^verbatim>\<open>b > a\<close>; \<^verbatim>\<open>min(a, b)\<close> keeps \<open>a\<close> unless \<^verbatim>\<open>b < a\<close>.\<close>

definition py_max :: "pyval \<Rightarrow> pyval \<Rightarrow> error + pyval" where
  "py_max a b = and_then (py_lt a b) (\<lambda>gt. Inr (if gt then b else a))"

definition py_min :: "pyval \<Rightarrow> pyval \<Rightarrow> error + pyval" where
  "py_min a b = and_then (py_lt b a) (\<lambda>lt. Inr (if lt then b else a))"

section \<open>The tier derivation of \<^verbatim>\<open>add_enhanced_tiers\<close>\<close>

text \<open>
  The body of the loop of \<^verbatim>\<open>add_enhanced_tiers\<close> works on one model: its table
  \<^verbatim>\<open>model_config\<close>, from tier names to tier configurations. \<open>derive_xxs\<close> is the block
  that fills \<^verbatim>\<open>xxs_config\<close> (lines 25 to 41), \<open>derive_xxl\<close> the block that fills
  \<^verbatim>\<open>xxl_config\<close> (lines 49 to 59), \<open>augment\<close> the body as a whole (lines 14 to 62),
  on the value of the table.
\<close>

subsection \<open>Truth value and copy\<close>

fun is_true :: "pyval \<Rightarrow> bool" where
  "is_true PNone = False"
| "is_true (PBool b) = b"
| "is_true (PInt i) = (i \<noteq> 0)"
| "is_true (PFloat x) = (case x of Fin s m e \<Rightarrow> m \<noteq> 0 | _ \<Rightarrow> True)"
| "is_true (PStr s) = (s \<noteq> [])"
| "is_true (PList xs) = (xs \<noteq> [])"
| "is_true (PDict d) = (d \<noteq> [])"

text \<open>\<^verbatim>\<open>v.copy()\<close>: dictionaries and lists have the method, nothing else that JSON gives.\<close>

fun py_copy :: "pyval \<Rightarrow> error + pyval" where
  "py_copy (PDict d) = Inr (PDict d)"
| "py_copy (PList xs) = Inr (PList xs)"
| "py_copy _ = Inl AttributeError"

subsection \<open>The xxs tier\<close>

text \<open>\<^verbatim>\<open>if k in c: c[k] = c[k] * factor\<close>\<close>

definition scale_field :: "string \<Rightarrow> pyfloat \<Rightarrow> pydict \<Rightarrow> error + pydict" where
  "scale_field k factor c =
     (case map_of c k of
        None \<Rightarrow> Inr c
      | Some v \<Rightarrow> and_then (py_mul v (PFloat factor)) (\<lambda>w. Inr (dict_set k w c)))"

definition xxs_optimizer_args :: pyval where
  "xxs_optimizer_args =
     PList [PStr ''betas=(0.9, 0.999)'', PStr ''weight_decay=0.0002'', PStr ''eps=1e-08'']"

definition derive_xxs :: "pydict \<Rightarrow> error + pydict" where
  "derive_xxs c0 =
     and_then (py_add (dict_get c0 ''max_train_epochs'' (PInt 38)) (PInt 7)) (\<lambda>epochs.
     let c1 = dict_set ''max_train_epochs'' epochs c0;
         c2 = dict_set ''train_batch_size'' (PInt 2) c1;
         c3 = dict_set ''gradient_accumulation_steps'' (PInt 4) c2
     in
     and_then (scale_field ''unet_lr'' (fl_lit 8 10) c3) (\<lambda>c4.
     and_then (scale_field ''text_encoder_lr'' (fl_lit 8 10) c4) (\<lambda>c5.
     let c6 = dict_set ''noise_offset'' (PFloat (fl_lit 15 1000)) c5;
         c7 = dict_set ''lr_scheduler'' (PStr ''constant_with_warmup'') c6;
         c8 = dict_set ''max_data_loader_n_workers'' (PInt 2) c7
     in
     Inr (if str_contains ''weight_decay''
               (py_str (dict_get c8 ''optimizer_args'' (PList [])))
          then dict_set ''optimizer_args'' xxs_optimizer_args c8
          else c8))))"

subsection \<open>The xxl tier\<close>

text \<open>\<^verbatim>\<open>if k in c: c[k] = min(ceiling, c[k] * factor)\<close>\<close>

definition scale_clamp_field ::
  "string \<Rightarrow> pyfloat \<Rightarrow> pyfloat \<Rightarrow> pydict \<Rightarrow> error + pydict" where
  "scale_clamp_field k ceiling factor c =
     (case map_of c k of
        None \<Rightarrow> Inr c
      | Some v \<Rightarrow>
          and_then (py_mul v (PFloat factor)) (\<lambda>w.
          and_then (py_min (PFloat ceiling) w) (\<lambda>u. Inr (dict_set k u c))))"

definition derive_xxl :: "pydict \<Rightarrow> error + pydict" where
  "derive_xxl c0 =
     and_then (py_sub (dict_get c0 ''max_train_epochs'' (PInt 11)) (PInt 3)) (\<lambda>e.
     and_then (py_max (PInt 8) e) (\<lambda>epochs.
     let c1 = dict_set ''max_train_epochs'' epochs c0 in
     and_then (py_add (dict_get c1 ''train_batch_size'' (PInt 12)) (PInt 4)) (\<lambda>b.
     and_then (py_min (PInt 16) b) (\<lambda>batch.
     let c2 = dict_set ''train_batch_size'' batch c1;
         c3 = dict_set ''gradient_accumulation_steps'' (PInt 1) c2
     in
     and_then (scale_clamp_field ''unet_lr'' (fl_lit 5 100000) (fl_lit 115 100) c3) (\<lambda>c4.
     and_then (scale_clamp_field ''text_encoder_lr'' (fl_lit 25 10000000) (fl_lit 115 100) c4)
       (\<lambda>c5.
     let c6 = dict_set ''noise_offset'' (PFloat (fl_lit 45 1000)) c5;
         c7 = dict_set ''lr_scheduler'' (PStr ''cosine'') c6
     in
     and_then (py_add (dict_get c7 ''lr_warmup_steps'' (PInt 120)) (PInt 30)) (\<lambda>warmup.
     let c8 = dict_set ''lr_warmup_steps'' warmup c7
     in Inr (dict_set ''max_data_loader_n_workers'' (PInt 8) c8))))))))"

subsection \<open>One model\<close>

text \<open>
  The two tiers as the body builds them: the copy (which fails on a value with no
  \<^verbatim>\<open>copy\<close> method), the test \<^verbatim>\<open>if xxs_config:\<close>, and the block, which calls \<^verbatim>\<open>get\<close> and so
  fails on a list. \<open>None\<close> is the tier not built.
\<close>

definition xxs_tier :: "pyval \<Rightarrow> error + pyval option" where
  "xxs_tier xs_config =
     and_then (py_copy xs_config) (\<lambda>xxs_config.
       if is_true xxs_config then
         (case xxs_config of
            PDict c \<Rightarrow> and_then (derive_xxs c) (\<lambda>r. Inr (Some (PDict r)))
          | _ \<Rightarrow> Inl AttributeError)
       else Inr None)"

definition xxl_tier :: "pyval \<Rightarrow> error + pyval option" where
  "xxl_tier xl_config =
     and_then (py_copy xl_config) (\<lambda>xxl_config.
       if is_true xxl_config then
         (case xxl_config of
            PDict c \<Rightarrow> and_then (derive_xxl c) (\<lambda>r. Inr (Some (PDict r)))
          | _ \<Rightarrow> Inl AttributeError)
       else Inr None)"

text \<open>Line 44, under \<^verbatim>\<open>if xxs_config:\<close>, and line 62, under \<^verbatim>\<open>if xxl_config:\<close>.\<close>

definition put_xxs :: "pyval option \<Rightarrow> pydict \<Rightarrow> pydict" where
  "put_xxs xxs model_config =
     (case xxs of None \<Rightarrow> model_config
      | Some xxs_config \<Rightarrow> prepend_xxs xxs_config model_config)"

definition put_xxl :: "pyval option \<Rightarrow> pydict \<Rightarrow> pydict" where
  "put_xxl xxl model_config =
     (case xxl of None \<Rightarrow> model_config
      | Some xxl_config \<Rightarrow> dict_set ''xxl'' xxl_config model_config)"

definition augment :: "pydict \<Rightarrow> error + pydict" where
  "augment model_config =
     (if has_key model_config ''xs'' then
        if has_key model_config ''xxs'' \<and> has_key model_config ''xxl'' then Inr model_config
        else
          let xs_config = dict_get model_config ''xs'' (PDict []);
              xl_config = dict_get model_config ''xl'' (PDict [])
          in
          and_then (xxs_tier xs_config) (\<lambda>xxs.
          and_then (xxl_tier xl_config) (\<lambda>xxl.
          Inr (put_xxl xxl (put_xxs xxs model_config))))
      else Inr model_config)"

section \<open>The registry in the store\<close>

text \<open>
  \<^verbatim>\<open>add_enhanced_tiers(config_data)\<close> works in place: it assigns into the dictionary
  \<^verbatim>\<open>config_data["data"]\<close> and, on one path, into the table of a model, and returns
  \<^verbatim>\<open>config_data\<close> itself. The store holds the objects the function can assign into: the
  tables, at addresses \<open>0, 1, \<dots>\<close> (a new object takes the next address), and the \<^verbatim>\<open>data\<close>
  dictionary, whose items refer to tables. The configuration of a tier is never assigned
  into (the function copies it first), so a tier is a value.
\<close>

type_synonym addr = nat

datatype mval = Ref addr | Val pyval

datatype dataval = DataDict "(string \<times> mval) list" | DataVal pyval

record store =
  data_item :: "dataval option"
  objs :: "pydict list"

text \<open>\<open>data_item\<close> is \<open>None\<close> when \<^verbatim>\<open>config_data\<close> has no key \<^verbatim>\<open>data\<close>. An item \<open>Val v\<close> of
  the \<^verbatim>\<open>data\<close> dictionary is a value that is not a dictionary.\<close>

definition obj_at :: "store \<Rightarrow> addr \<Rightarrow> pydict option" where
  "obj_at h a = (if a < length (objs h) then Some (objs h ! a) else None)"

definition data_items :: "store \<Rightarrow> (string \<times> mval) list" where
  "data_items h = (case data_item h of Some (DataDict items) \<Rightarrow> items | _ \<Rightarrow> [])"

definition set_data :: "string \<Rightarrow> mval \<Rightarrow> store \<Rightarrow> store" where
  "set_data k v h =
     h\<lparr>data_item := Some (DataDict (AList.update k v (data_items h)))\<rparr>"

definition alloc :: "pydict \<Rightarrow> store \<Rightarrow> store \<times> addr" where
  "alloc d h = (h\<lparr>objs := objs h @ [d]\<rparr>, length (objs h))"

definition set_obj_item :: "addr \<Rightarrow> string \<Rightarrow> pyval \<Rightarrow> store \<Rightarrow> store" where
  "set_obj_item a k v h = h\<lparr>objs := (objs h)[a := dict_set k v (objs h ! a)]\<rparr>"

text \<open>
  One turn of the loop, for the item \<open>model_hash\<close> of \<^verbatim>\<open>data\<close>, whose table is the object
  at \<open>a\<close>. The display on line 44 makes a new table and binds \<^verbatim>\<open>model_config\<close> to it;
  line 62 assigns into whatever \<^verbatim>\<open>model_config\<close> is bound to by then, the new table or the
  one of the registry; line 65 binds the item to it.
\<close>

definition write_back ::
  "string \<Rightarrow> addr \<Rightarrow> pydict \<Rightarrow> pyval option \<Rightarrow> pyval option \<Rightarrow> store \<Rightarrow> store" where
  "write_back model_hash a model_config xxs xxl h =
     (let (h1, a1) =
            (case xxs of None \<Rightarrow> (h, a)
             | Some xxs_config \<Rightarrow> alloc (prepend_xxs xxs_config model_config) h);
          h2 = (case xxl of None \<Rightarrow> h1
                | Some xxl_config \<Rightarrow> set_obj_item a1 ''xxl'' xxl_config h1)
      in set_data model_hash (Ref a1) h2)"

definition model_step :: "string \<Rightarrow> store \<Rightarrow> error + store" where
  "model_step model_hash h =
     (case map_of (data_items h) model_hash of
        Some (Ref a) \<Rightarrow>
          (case obj_at h a of
             Some model_config \<Rightarrow>
               if has_key model_config ''xs'' then
                 if has_key model_config ''xxs'' \<and> has_key model_config ''xxl'' then Inr h
                 else
                   let xs_config = dict_get model_config ''xs'' (PDict []);
                       xl_config = dict_get model_config ''xl'' (PDict [])
                   in
                   and_then (xxs_tier xs_config) (\<lambda>xxs.
                   and_then (xxl_tier xl_config) (\<lambda>xxl.
                   Inr (write_back model_hash a model_config xxs xxl h)))
               else Inr h
           | None \<Rightarrow> Inr h)
      | _ \<Rightarrow> Inr h)"

fun tiers_loop :: "string list \<Rightarrow> store \<Rightarrow> error option \<times> store" where
  "tiers_loop [] h = (None, h)"
| "tiers_loop (model_hash # rest) h =
     (case model_step model_hash h of
        Inl e \<Rightarrow> (Some e, h)
      | Inr h' \<Rightarrow> tiers_loop rest h')"

text \<open>The function: the exception, if one is raised, and the store it leaves.\<close>

definition add_enhanced_tiers :: "store \<Rightarrow> error option \<times> store" where
  "add_enhanced_tiers h =
     (case data_item h of
        None \<Rightarrow> (Some KeyError, h)
      | Some (DataVal v) \<Rightarrow> (Some AttributeError, h)
      | Some (DataDict items) \<Rightarrow> tiers_loop (map fst items) h)"

text \<open>
  A store as \<^verbatim>\<open>json.load\<close> or any Python program can make it: keys are distinct, every
  reference leads to an object, and a dictionary is held by reference.
\<close>

definition wf_store :: "store \<Rightarrow> bool" where
  "wf_store h \<longleftrightarrow>
     distinct (map fst (data_items h))
     \<and> (\<forall>m a. map_of (data_items h) m = Some (Ref a) \<longrightarrow> a < length (objs h))
     \<and> (\<forall>m d. map_of (data_items h) m \<noteq> Some (Val (PDict d)))
     \<and> (\<forall>d \<in> set (objs h). distinct (map fst d))"

text \<open>The table a model of the registry refers to.\<close>

definition table_of :: "store \<Rightarrow> string \<Rightarrow> pydict option" where
  "table_of h model_hash =
     (case map_of (data_items h) model_hash of Some (Ref a) \<Rightarrow> obj_at h a | _ \<Rightarrow> None)"

text \<open>
  What a call may change, from the store \<open>h\<close> before to the store \<open>h'\<close> after: the
  models of the registry and their order stay; no object is lost; in an object that was
  there only the item \<^verbatim>\<open>xxl\<close> may differ; and the table of a model holds, under every
  key but \<^verbatim>\<open>xxs\<close> and \<^verbatim>\<open>xxl\<close>, what it held.
\<close>

definition same_tiers :: "pydict \<Rightarrow> pydict \<Rightarrow> bool" where
  "same_tiers T T' \<longleftrightarrow> (\<forall>k. k \<noteq> ''xxs'' \<and> k \<noteq> ''xxl'' \<longrightarrow> map_of T' k = map_of T k)"

definition frame :: "store \<Rightarrow> store \<Rightarrow> bool" where
  "frame h h' \<longleftrightarrow>
     map fst (data_items h') = map fst (data_items h)
     \<and> length (objs h) \<le> length (objs h')
     \<and> (\<forall>a k. a < length (objs h) \<and> k \<noteq> ''xxl'' \<longrightarrow>
           map_of (objs h' ! a) k = map_of (objs h ! a) k)
     \<and> (\<forall>m. (table_of h' m = None) = (table_of h m = None))
     \<and> (\<forall>m T T'. table_of h m = Some T \<and> table_of h' m = Some T' \<longrightarrow> same_tiers T T')"

section \<open>Well-typed tier fields\<close>

text \<open>
  The fields the rules compute with, as the data model of the registry types them: an
  integer field holds an integer or is absent, a learning rate holds a float or is
  absent.
\<close>

definition int_field :: "pydict \<Rightarrow> string \<Rightarrow> bool" where
  "int_field d k = (case map_of d k of None \<Rightarrow> True | Some (PInt n) \<Rightarrow> True | Some _ \<Rightarrow> False)"

definition float_field :: "pydict \<Rightarrow> string \<Rightarrow> bool" where
  "float_field d k = (case map_of d k of None \<Rightarrow> True | Some (PFloat x) \<Rightarrow> True | Some _ \<Rightarrow> False)"

definition int_or :: "pydict \<Rightarrow> string \<Rightarrow> int \<Rightarrow> int" where
  "int_or d k dflt = (case map_of d k of Some (PInt n) \<Rightarrow> n | _ \<Rightarrow> dflt)"

definition typed_xs :: "pydict \<Rightarrow> bool" where
  "typed_xs xs \<longleftrightarrow>
     int_field xs ''max_train_epochs'' \<and> float_field xs ''unet_lr''
     \<and> float_field xs ''text_encoder_lr''"

definition typed_xl :: "pydict \<Rightarrow> bool" where
  "typed_xl xl \<longleftrightarrow>
     int_field xl ''max_train_epochs'' \<and> int_field xl ''train_batch_size''
     \<and> int_field xl ''lr_warmup_steps'' \<and> float_field xl ''unet_lr''
     \<and> float_field xl ''text_encoder_lr''"

section \<open>The rules as the specification words them\<close>

text \<open>
  The relation between a tier \<open>src\<close> and the tier \<open>r\<close> derived from it that the
  specification describes, field by field, to be compared with \<open>derive_xxs\<close> and
  \<open>derive_xxl\<close>. \<open>lr_rule k f\<close>: the learning rate \<open>k\<close>, when present, is \<open>f\<close> of the
  one of the source, and stays absent when absent.
\<close>

definition lr_rule :: "string \<Rightarrow> (pyfloat \<Rightarrow> pyfloat) \<Rightarrow> pydict \<Rightarrow> pydict \<Rightarrow> bool" where
  "lr_rule k f src r \<longleftrightarrow>
     (map_of src k = None \<longrightarrow> map_of r k = None)
     \<and> (\<forall>x. map_of src k = Some (PFloat x) \<longrightarrow> map_of r k = Some (PFloat (f x)))"

definition xxs_rules :: "pydict \<Rightarrow> pydict \<Rightarrow> bool" where
  "xxs_rules xs r \<longleftrightarrow>
     map_of r ''max_train_epochs'' = Some (PInt (int_or xs ''max_train_epochs'' 38 + 7))
     \<and> map_of r ''train_batch_size'' = Some (PInt 2)
     \<and> map_of r ''gradient_accumulation_steps'' = Some (PInt 4)
     \<and> lr_rule ''unet_lr'' (\<lambda>x. fl_mul x (fl_lit 8 10)) xs r
     \<and> lr_rule ''text_encoder_lr'' (\<lambda>x. fl_mul x (fl_lit 8 10)) xs r
     \<and> map_of r ''noise_offset'' = Some (PFloat (fl_lit 15 1000))
     \<and> map_of r ''lr_scheduler'' = Some (PStr ''constant_with_warmup'')
     \<and> map_of r ''max_data_loader_n_workers'' = Some (PInt 2)
     \<and> (\<forall>k. k \<notin> {''max_train_epochs'', ''train_batch_size'',
                  ''gradient_accumulation_steps'', ''unet_lr'', ''text_encoder_lr'',
                  ''noise_offset'', ''lr_scheduler'', ''max_data_loader_n_workers'',
                  ''optimizer_args''} \<longrightarrow>
            map_of r k = map_of xs k)"

definition optimizer_args_rule :: "pydict \<Rightarrow> pydict \<Rightarrow> bool" where
  "optimizer_args_rule xs r \<longleftrightarrow>
     (if str_contains ''weight_decay'' (py_str (dict_get xs ''optimizer_args'' (PList [])))
      then map_of r ''optimizer_args'' =
             Some (PList [PStr ''betas=(0.9, 0.999)'', PStr ''weight_decay=0.0002'',
                          PStr ''eps=1e-08''])
      else map_of r ''optimizer_args'' = map_of xs ''optimizer_args'')"

text \<open>\<^verbatim>\<open>min(ceiling, x)\<close> on floats: \<open>x\<close> when it is below the ceiling, else the ceiling.\<close>

definition fl_min :: "pyfloat \<Rightarrow> pyfloat \<Rightarrow> pyfloat" where
  "fl_min ceiling x = (if ext_lt (ext_of_float x) (ext_of_float ceiling) then x else ceiling)"

definition xxl_lr_rules :: "pydict \<Rightarrow> pydict \<Rightarrow> bool" where
  "xxl_lr_rules xl r \<longleftrightarrow>
     lr_rule ''unet_lr'' (\<lambda>x. fl_min (fl_lit 5 100000) (fl_mul x (fl_lit 115 100))) xl r
     \<and> lr_rule ''text_encoder_lr''
          (\<lambda>x. fl_min (fl_lit 25 10000000) (fl_mul x (fl_lit 115 100))) xl r"

definition xxl_rules :: "pydict \<Rightarrow> pydict \<Rightarrow> bool" where
  "xxl_rules xl r \<longleftrightarrow>
     map_of r ''max_train_epochs'' = Some (PInt (max 8 (int_or xl ''max_train_epochs'' 11 - 3)))
     \<and> map_of r ''train_batch_size'' = Some (PInt (min 16 (int_or xl ''train_batch_size'' 12 + 4)))
     \<and> map_of r ''gradient_accumulation_steps'' = Some (PInt 1)
     \<and> map_of r ''noise_offset'' = Some (PFloat (fl_lit 45 1000))
     \<and> map_of r ''lr_scheduler'' = Some (PStr ''cosine'')
     \<and> map_of r ''lr_warmup_steps'' = Some (PInt (int_or xl ''lr_warmup_steps'' 120 + 30))
     \<and> map_of r ''max_data_loader_n_workers'' = Some (PInt 8)
     \<and> (\<forall>k. k \<notin> {''max_train_epochs'', ''train_batch_size'',
                  ''gradient_accumulation_steps'', ''unet_lr'', ''text_encoder_lr'',
                  ''noise_offset'', ''lr_scheduler'', ''lr_warmup_steps'',
                  ''max_data_loader_n_workers''} \<longrightarrow>
            map_of r k = map_of xl k)"

text \<open>Two dictionaries are equal in Python when they hold the same items, in any order.\<close>

definition dict_eq :: "pydict \<Rightarrow> pydict \<Rightarrow> bool" where
  "dict_eq a b \<longleftrightarrow> distinct (map fst a) \<and> distinct (map fst b) \<and> set a = set b"

section \<open>Basic facts\<close>

lemma and_then_Inr [simp]: "and_then (Inr x) f = f x"
  by (simp add: and_then_def)

lemma and_then_Inl [simp]: "and_then (Inl e) f = Inl e"
  by (simp add: and_then_def)

lemma and_then_eq_Inr: "and_then r f = Inr y \<longleftrightarrow> (\<exists>x. r = Inr x \<and> f x = Inr y)"
  by (cases r) simp_all

lemma map_of_dict_set [simp]: "map_of (dict_set k v d) = (map_of d)(k \<mapsto> v)"
  by (simp add: dict_set_def update_conv')

lemma keys_dict_set: "fst ` set (dict_set k v d) = insert k (fst ` set d)"
  by (simp add: dict_set_def dom_update)

lemma distinct_dict_set: "distinct (map fst d) \<Longrightarrow> distinct (map fst (dict_set k v d))"
  by (simp add: dict_set_def distinct_update)

lemma dict_set_not_Nil [simp]: "dict_set k v d \<noteq> []"
  by (cases d) (simp_all add: dict_set_def)

lemma has_key_iff: "has_key d k \<longleftrightarrow> k \<in> fst ` set d"
  by (simp add: has_key_def map_of_eq_None_iff)

lemma py_add_int [simp]: "py_add (PInt a) (PInt b) = Inr (PInt (a + b))"
  by (simp add: py_add_def num_op_def)

lemma py_sub_int [simp]: "py_sub (PInt a) (PInt b) = Inr (PInt (a - b))"
  by (simp add: py_sub_def num_op_def)

lemma py_mul_float [simp]: "py_mul (PFloat x) (PFloat c) = Inr (PFloat (fl_mul x c))"
  by (simp add: py_mul_def num_op_def)

lemma py_max_int [simp]: "py_max (PInt a) (PInt b) = Inr (PInt (max a b))"
  by (simp add: py_max_def py_lt_def num_op_def max_def)

lemma py_min_int [simp]: "py_min (PInt a) (PInt b) = Inr (PInt (min a b))"
  by (auto simp add: py_min_def py_lt_def num_op_def min_def)

lemma py_min_float:
  "py_min (PFloat c) (PFloat w) =
     Inr (PFloat (if ext_lt (ext_of_float w) (ext_of_float c) then w else c))"
  by (simp add: py_min_def py_lt_def num_op_def)

lemma int_field_get:
  "int_field d k \<Longrightarrow> dict_get d k (PInt dflt) = PInt (int_or d k dflt)"
  by (auto simp add: int_field_def dict_get_def int_or_def split: option.splits pyval.splits)

section \<open>The xxs tier\<close>

text \<open>The scaling step on a well-typed learning rate.\<close>

lemma scale_field_float_eq:
  assumes "float_field c k"
  shows "scale_field k f c =
     Inr (case map_of c k of Some (PFloat x) \<Rightarrow> dict_set k (PFloat (fl_mul x f)) c | _ \<Rightarrow> c)"
  using assms
  by (simp add: float_field_def scale_field_def split: option.splits pyval.splits)

lemma derive_xxs_typed:
  assumes "typed_xs xs"
  shows "\<exists>r. derive_xxs xs = Inr r \<and> xxs_rules xs r \<and> optimizer_args_rule xs r"
proof -
  from assms have mte: "int_field xs ''max_train_epochs''"
    and ulr: "float_field xs ''unet_lr''"
    and tlr: "float_field xs ''text_encoder_lr''"
    by (simp_all add: typed_xs_def)
  define c3 where "c3 = dict_set ''gradient_accumulation_steps'' (PInt 4)
      (dict_set ''train_batch_size'' (PInt 2)
        (dict_set ''max_train_epochs'' (PInt (int_or xs ''max_train_epochs'' 38 + 7)) xs))"
  define c4 where "c4 = (case map_of c3 ''unet_lr'' of
      Some (PFloat x) \<Rightarrow> dict_set ''unet_lr'' (PFloat (fl_mul x (fl_lit 8 10))) c3 | _ \<Rightarrow> c3)"
  define c5 where "c5 = (case map_of c4 ''text_encoder_lr'' of
      Some (PFloat x) \<Rightarrow> dict_set ''text_encoder_lr'' (PFloat (fl_mul x (fl_lit 8 10))) c4 | _ \<Rightarrow> c4)"
  define c8 where "c8 = dict_set ''max_data_loader_n_workers'' (PInt 2)
      (dict_set ''lr_scheduler'' (PStr ''constant_with_warmup'')
        (dict_set ''noise_offset'' (PFloat (fl_lit 15 1000)) c5))"
  define r where "r = (if str_contains ''weight_decay''
               (py_str (dict_get c8 ''optimizer_args'' (PList [])))
          then dict_set ''optimizer_args'' xxs_optimizer_args c8 else c8)"
  have u3: "map_of c3 ''unet_lr'' = map_of xs ''unet_lr''"
    and t3: "map_of c3 ''text_encoder_lr'' = map_of xs ''text_encoder_lr''"
    by (simp_all add: c3_def)
  have t4: "map_of c4 ''text_encoder_lr'' = map_of xs ''text_encoder_lr''"
    by (simp add: c4_def t3 split: option.splits pyval.splits)
  have ff3: "float_field c3 ''unet_lr''"
    using ulr by (simp add: float_field_def u3)
  have ff4: "float_field c4 ''text_encoder_lr''"
    using tlr by (simp add: float_field_def t4)
  have s4: "scale_field ''unet_lr'' (fl_lit 8 10) c3 = Inr c4"
    unfolding c4_def by (rule scale_field_float_eq [OF ff3])
  have s5: "scale_field ''text_encoder_lr'' (fl_lit 8 10) c4 = Inr c5"
    unfolding c5_def by (rule scale_field_float_eq [OF ff4])
  have run: "derive_xxs xs = Inr r"
    unfolding derive_xxs_def int_field_get [OF mte]
    by (simp add: c3_def [symmetric] s4 s5 c8_def [symmetric] r_def Let_def)
  have r_other: "map_of r j = map_of c8 j" if "j \<noteq> ''optimizer_args''" for j
    using that by (simp add: r_def)
  have five: "map_of c5 j = map_of c3 j" if "j \<noteq> ''unet_lr''" "j \<noteq> ''text_encoder_lr''" for j
    using that by (simp add: c5_def c4_def split: option.splits pyval.splits)
  have u5: "map_of c5 ''unet_lr'' = map_of c4 ''unet_lr''"
    by (simp add: c5_def split: option.splits pyval.splits)
  have oa8: "map_of c8 ''optimizer_args'' = map_of xs ''optimizer_args''"
    by (simp add: c8_def five c3_def)
  have f1: "map_of r ''max_train_epochs'' = Some (PInt (int_or xs ''max_train_epochs'' 38 + 7))"
    by (simp add: r_other c8_def five c3_def)
  have f2: "map_of r ''train_batch_size'' = Some (PInt 2)"
    by (simp add: r_other c8_def five c3_def)
  have f3: "map_of r ''gradient_accumulation_steps'' = Some (PInt 4)"
    by (simp add: r_other c8_def five c3_def)
  have f4: "lr_rule ''unet_lr'' (\<lambda>x. fl_mul x (fl_lit 8 10)) xs r"
    by (simp add: lr_rule_def r_other c8_def u5 c4_def u3)
  have f5: "lr_rule ''text_encoder_lr'' (\<lambda>x. fl_mul x (fl_lit 8 10)) xs r"
    by (simp add: lr_rule_def r_other c8_def c5_def t4)
  have f8: "map_of r ''noise_offset'' = Some (PFloat (fl_lit 15 1000))"
    by (simp add: r_other c8_def)
  have f9: "map_of r ''lr_scheduler'' = Some (PStr ''constant_with_warmup'')"
    by (simp add: r_other c8_def)
  have f10: "map_of r ''max_data_loader_n_workers'' = Some (PInt 2)"
    by (simp add: r_other c8_def)
  have f11: "\<forall>k. k \<notin> {''max_train_epochs'', ''train_batch_size'', ''gradient_accumulation_steps'',
                  ''unet_lr'', ''text_encoder_lr'', ''noise_offset'', ''lr_scheduler'',
                  ''max_data_loader_n_workers'', ''optimizer_args''} \<longrightarrow>
            map_of r k = map_of xs k"
    by (simp add: r_other c8_def five c3_def)
  have rules: "xxs_rules xs r"
    unfolding xxs_rules_def by (intro conjI; fact)
  have "dict_get c8 ''optimizer_args'' (PList []) = dict_get xs ''optimizer_args'' (PList [])"
    by (simp add: dict_get_def oa8)
  then have oa: "optimizer_args_rule xs r"
    by (simp add: optimizer_args_rule_def r_def oa8 xxs_optimizer_args_def)
  show ?thesis
    using run rules oa by (intro exI [of _ r] conjI)
qed

lemma xxs_tier_dict:
  "xs \<noteq> [] \<Longrightarrow> xxs_tier (PDict xs) = and_then (derive_xxs xs) (\<lambda>r. Inr (Some (PDict r)))"
  by (simp add: xxs_tier_def)

lemma xxs_tier_typed:
  assumes "xs \<noteq> []" "typed_xs xs"
  shows "\<exists>r. xxs_tier (PDict xs) = Inr (Some (PDict r)) \<and> xxs_rules xs r
           \<and> optimizer_args_rule xs r"
proof -
  from derive_xxs_typed [OF assms(2)] obtain r
    where r: "derive_xxs xs = Inr r \<and> xxs_rules xs r \<and> optimizer_args_rule xs r" ..
  then have "xxs_tier (PDict xs) = Inr (Some (PDict r))"
    by (simp add: xxs_tier_dict [OF assms(1)])
  with r show ?thesis
    by (intro exI [of _ r] conjI) simp_all
qed

text \<open>
  Claim C5. For every non-empty xs configuration with well-typed fields the derived xxs
  tier exists and is a copy of xs with the overrides: \<^verbatim>\<open>max_train_epochs\<close> is the one of
  xs (38 when absent) plus 7, \<^verbatim>\<open>train_batch_size\<close> is 2, \<^verbatim>\<open>gradient_accumulation_steps\<close>
  is 4, \<^verbatim>\<open>unet_lr\<close> and \<^verbatim>\<open>text_encoder_lr\<close> are multiplied by 0.8 when present,
  \<^verbatim>\<open>noise_offset\<close> is 0.015, \<^verbatim>\<open>lr_scheduler\<close> is \<^verbatim>\<open>constant_with_warmup\<close>,
  \<^verbatim>\<open>max_data_loader_n_workers\<close> is 2, and every other field is the one of xs. The xs
  configuration of the concrete scenario (38 epochs, \<^verbatim>\<open>unet_lr\<close> 0.0001, a
  \<^verbatim>\<open>weight_decay\<close> optimizer argument) gives the xxs configuration stated there.
\<close>

theorem xxs_tier_overrides:
  "(\<forall>xs. xs \<noteq> [] \<and> typed_xs xs \<longrightarrow>
      (\<exists>r. xxs_tier (PDict xs) = Inr (Some (PDict r)) \<and> xxs_rules xs r))
   \<and> (\<exists>r. xxs_tier (PDict [(''max_train_epochs'', PInt 38),
                             (''unet_lr'', PFloat (fl_lit 1 10000)),
                             (''optimizer_args'', PList [PStr ''weight_decay=0.01''])])
            = Inr (Some (PDict r))
          \<and> dict_eq r [(''max_train_epochs'', PInt 45),
                        (''unet_lr'', PFloat (fl_lit 8 100000)),
                        (''train_batch_size'', PInt 2),
                        (''gradient_accumulation_steps'', PInt 4),
                        (''noise_offset'', PFloat (fl_lit 15 1000)),
                        (''lr_scheduler'', PStr ''constant_with_warmup''),
                        (''max_data_loader_n_workers'', PInt 2),
                        (''optimizer_args'', PList [PStr ''betas=(0.9, 0.999)'',
                             PStr ''weight_decay=0.0002'', PStr ''eps=1e-08''])])"
proof (rule conjI)
  show "\<forall>xs. xs \<noteq> [] \<and> typed_xs xs \<longrightarrow>
      (\<exists>r. xxs_tier (PDict xs) = Inr (Some (PDict r)) \<and> xxs_rules xs r)"
  proof (intro allI impI, elim conjE)
    fix xs :: pydict
    assume "xs \<noteq> []" "typed_xs xs"
    from xxs_tier_typed [OF this] obtain r
      where r: "xxs_tier (PDict xs) = Inr (Some (PDict r)) \<and> xxs_rules xs r
           \<and> optimizer_args_rule xs r" ..
    then show "\<exists>r. xxs_tier (PDict xs) = Inr (Some (PDict r)) \<and> xxs_rules xs r"
      by (intro exI [of _ r] conjI) simp_all
  qed
next
  have run: "xxs_tier (PDict [(''max_train_epochs'', PInt 38),
                             (''unet_lr'', PFloat (fl_lit 1 10000)),
                             (''optimizer_args'', PList [PStr ''weight_decay=0.01''])])
     = Inr (Some (PDict [(''max_train_epochs'', PInt 45),
                          (''unet_lr'', PFloat (fl_lit 8 100000)),
                          (''optimizer_args'', PList [PStr ''betas=(0.9, 0.999)'',
                             PStr ''weight_decay=0.0002'', PStr ''eps=1e-08'']),
                          (''train_batch_size'', PInt 2),
                          (''gradient_accumulation_steps'', PInt 4),
                          (''noise_offset'', PFloat (fl_lit 15 1000)),
                          (''lr_scheduler'', PStr ''constant_with_warmup''),
                          (''max_data_loader_n_workers'', PInt 2)]))"
    by code_simp
  have eq: "dict_eq [(''max_train_epochs'', PInt 45),
                          (''unet_lr'', PFloat (fl_lit 8 100000)),
                          (''optimizer_args'', PList [PStr ''betas=(0.9, 0.999)'',
                             PStr ''weight_decay=0.0002'', PStr ''eps=1e-08'']),
                          (''train_batch_size'', PInt 2),
                          (''gradient_accumulation_steps'', PInt 4),
                          (''noise_offset'', PFloat (fl_lit 15 1000)),
                          (''lr_scheduler'', PStr ''constant_with_warmup''),
                          (''max_data_loader_n_workers'', PInt 2)]
       [(''max_train_epochs'', PInt 45),
                        (''unet_lr'', PFloat (fl_lit 8 100000)),
                        (''train_batch_size'', PInt 2),
                        (''gradient_accumulation_steps'', PInt 4),
                        (''noise_offset'', PFloat (fl_lit 15 1000)),
                        (''lr_scheduler'', PStr ''constant_with_warmup''),
                        (''max_data_loader_n_workers'', PInt 2),
                        (''optimizer_args'', PList [PStr ''betas=(0.9, 0.999)'',
                             PStr ''weight_decay=0.0002'', PStr ''eps=1e-08''])]"
    by code_simp
  show "\<exists>r. xxs_tier (PDict [(''max_train_epochs'', PInt 38),
                             (''unet_lr'', PFloat (fl_lit 1 10000)),
                             (''optimizer_args'', PList [PStr ''weight_decay=0.01''])])
            = Inr (Some (PDict r))
          \<and> dict_eq r [(''max_train_epochs'', PInt 45),
                        (''unet_lr'', PFloat (fl_lit 8 100000)),
                        (''train_batch_size'', PInt 2),
                        (''gradient_accumulation_steps'', PInt 4),
                        (''noise_offset'', PFloat (fl_lit 15 1000)),
                        (''lr_scheduler'', PStr ''constant_with_warmup''),
                        (''max_data_loader_n_workers'', PInt 2),
                        (''optimizer_args'', PList [PStr ''betas=(0.9, 0.999)'',
                             PStr ''weight_decay=0.0002'', PStr ''eps=1e-08''])]"
    using run eq by (intro exI conjI)
qed

theorem xxs_tier_overrides_witness:
  "[(''unet_lr'', PFloat (fl_lit 1 10000)), (''seed'', PInt 7)] \<noteq> []
   \<and> typed_xs [(''unet_lr'', PFloat (fl_lit 1 10000)), (''seed'', PInt 7)]
   \<and> (\<exists>r. xxs_tier (PDict [(''unet_lr'', PFloat (fl_lit 1 10000)), (''seed'', PInt 7)])
             = Inr (Some (PDict r))
          \<and> xxs_rules [(''unet_lr'', PFloat (fl_lit 1 10000)), (''seed'', PInt 7)] r)"
proof -
  have h: "[(''unet_lr'', PFloat (fl_lit 1 10000)), (''seed'', PInt 7)] \<noteq> []
   \<and> typed_xs [(''unet_lr'', PFloat (fl_lit 1 10000)), (''seed'', PInt 7)]"
    by (simp add: typed_xs_def int_field_def float_field_def)
  from xxs_tier_overrides [THEN conjunct1, THEN spec, THEN mp, OF h] h
  show ?thesis by (intro conjI) simp_all
qed

lemma scale_field_frame:
  "scale_field k f c = Inr c' \<Longrightarrow> j \<noteq> k \<Longrightarrow> map_of c' j = map_of c j"
  by (auto simp add: scale_field_def and_then_eq_Inr split: option.splits)

lemma derive_xxs_optimizer_args:
  assumes a: "derive_xxs xs = Inr r"
  shows "optimizer_args_rule xs r"
proof -
  obtain ep where ep: "py_add (dict_get xs ''max_train_epochs'' (PInt 38)) (PInt 7) = Inr ep"
    using a by (cases "py_add (dict_get xs ''max_train_epochs'' (PInt 38)) (PInt 7)")
      (simp_all add: derive_xxs_def)
  define c3 where "c3 = dict_set ''gradient_accumulation_steps'' (PInt 4)
      (dict_set ''train_batch_size'' (PInt 2) (dict_set ''max_train_epochs'' ep xs))"
  obtain c4 where c4: "scale_field ''unet_lr'' (fl_lit 8 10) c3 = Inr c4"
    using a ep by (cases "scale_field ''unet_lr'' (fl_lit 8 10) c3")
      (simp_all add: derive_xxs_def Let_def c3_def)
  obtain c5 where c5: "scale_field ''text_encoder_lr'' (fl_lit 8 10) c4 = Inr c5"
    using a ep c4 by (cases "scale_field ''text_encoder_lr'' (fl_lit 8 10) c4")
      (simp_all add: derive_xxs_def Let_def c3_def [symmetric])
  define c8 where "c8 = dict_set ''max_data_loader_n_workers'' (PInt 2)
      (dict_set ''lr_scheduler'' (PStr ''constant_with_warmup'')
        (dict_set ''noise_offset'' (PFloat (fl_lit 15 1000)) c5))"
  have "derive_xxs xs = Inr (if str_contains ''weight_decay''
               (py_str (dict_get c8 ''optimizer_args'' (PList [])))
          then dict_set ''optimizer_args'' xxs_optimizer_args c8 else c8)"
    using ep c4 c5
    by (simp add: derive_xxs_def Let_def c3_def [symmetric] c8_def)
  with a have r: "r = (if str_contains ''weight_decay''
               (py_str (dict_get c8 ''optimizer_args'' (PList [])))
          then dict_set ''optimizer_args'' xxs_optimizer_args c8 else c8)"
    by simp
  have "map_of c5 ''optimizer_args'' = map_of c4 ''optimizer_args''"
    by (rule scale_field_frame [OF c5]) simp
  also have "\<dots> = map_of c3 ''optimizer_args''"
    by (rule scale_field_frame [OF c4]) simp
  also have "\<dots> = map_of xs ''optimizer_args''"
    by (simp add: c3_def)
  finally have oa8: "map_of c8 ''optimizer_args'' = map_of xs ''optimizer_args''"
    by (simp add: c8_def)
  then have "dict_get c8 ''optimizer_args'' (PList []) = dict_get xs ''optimizer_args'' (PList [])"
    by (simp add: dict_get_def)
  then show ?thesis
    by (simp add: optimizer_args_rule_def r oa8 xxs_optimizer_args_def)
qed

lemma xxs_tier_Some:
  "xxs_tier (PDict xs) = Inr (Some (PDict r)) \<longleftrightarrow> xs \<noteq> [] \<and> derive_xxs xs = Inr r"
  by (cases "derive_xxs xs") (simp_all add: xxs_tier_def)


text \<open>
  Claim C8. Whenever an xxs tier is derived from an xs configuration: if the string
  rendering (\<^verbatim>\<open>str\<close>) of its \<^verbatim>\<open>optimizer_args\<close>, the empty list when absent, contains
  \<^verbatim>\<open>weight_decay\<close>, the \<^verbatim>\<open>optimizer_args\<close> of xxs are exactly the three fixed strings;
  otherwise they are the ones of xs, absent when absent. The tier is derived for every
  non-empty well-typed xs. The test is a scan of the rendering and not a parse of the
  keys: a list with no \<^verbatim>\<open>weight_decay\<close> key whose text mentions the word is replaced.
\<close>

theorem optimizer_args_substring_scan:
  "(\<forall>xs r. xxs_tier (PDict xs) = Inr (Some (PDict r)) \<longrightarrow> optimizer_args_rule xs r)
   \<and> (\<forall>xs. xs \<noteq> [] \<and> typed_xs xs \<longrightarrow> (\<exists>r. xxs_tier (PDict xs) = Inr (Some (PDict r))))
   \<and> py_str (PList [PStr ''eps=1e-08'', PStr ''note=no_weight_decay_here''])
       = ''['' @ [CHR 0x27] @ ''eps=1e-08'' @ [CHR 0x27] @ '', '' @ [CHR 0x27]
         @ ''note=no_weight_decay_here'' @ [CHR 0x27] @ '']''
   \<and> optimizer_args_rule
        [(''optimizer_args'', PList [PStr ''eps=1e-08'', PStr ''note=no_weight_decay_here''])]
        [(''optimizer_args'', PList [PStr ''betas=(0.9, 0.999)'', PStr ''weight_decay=0.0002'',
                                     PStr ''eps=1e-08''])]"
proof (intro conjI allI impI)
  fix xs r
  assume "xxs_tier (PDict xs) = Inr (Some (PDict r))"
  then have "derive_xxs xs = Inr r"
    by (simp add: xxs_tier_Some)
  then show "optimizer_args_rule xs r"
    by (rule derive_xxs_optimizer_args)
next
  fix xs :: pydict
  assume "xs \<noteq> [] \<and> typed_xs xs"
  then have "xs \<noteq> []" "typed_xs xs"
    by simp_all
  from xxs_tier_typed [OF this] obtain r
    where "xxs_tier (PDict xs) = Inr (Some (PDict r)) \<and> xxs_rules xs r
           \<and> optimizer_args_rule xs r" ..
  then show "\<exists>r. xxs_tier (PDict xs) = Inr (Some (PDict r))"
    by (intro exI [of _ r]) simp
next
  show "py_str (PList [PStr ''eps=1e-08'', PStr ''note=no_weight_decay_here''])
       = ''['' @ [CHR 0x27] @ ''eps=1e-08'' @ [CHR 0x27] @ '', '' @ [CHR 0x27]
         @ ''note=no_weight_decay_here'' @ [CHR 0x27] @ '']''"
    by code_simp
next
  show "optimizer_args_rule
        [(''optimizer_args'', PList [PStr ''eps=1e-08'', PStr ''note=no_weight_decay_here''])]
        [(''optimizer_args'', PList [PStr ''betas=(0.9, 0.999)'', PStr ''weight_decay=0.0002'',
                                     PStr ''eps=1e-08''])]"
    by code_simp
qed

theorem optimizer_args_substring_scan_witness:
  "xxs_tier (PDict [(''optimizer_args'', PList [PStr ''lr=1'', PStr ''weight_decay=0.01''])])
     = Inr (Some (PDict [(''optimizer_args'', PList [PStr ''betas=(0.9, 0.999)'',
                             PStr ''weight_decay=0.0002'', PStr ''eps=1e-08'']),
                         (''max_train_epochs'', PInt 45),
                         (''train_batch_size'', PInt 2),
                         (''gradient_accumulation_steps'', PInt 4),
                         (''noise_offset'', PFloat (fl_lit 15 1000)),
                         (''lr_scheduler'', PStr ''constant_with_warmup''),
                         (''max_data_loader_n_workers'', PInt 2)]))
   \<and> optimizer_args_rule
        [(''optimizer_args'', PList [PStr ''lr=1'', PStr ''weight_decay=0.01''])]
        [(''optimizer_args'', PList [PStr ''betas=(0.9, 0.999)'',
                             PStr ''weight_decay=0.0002'', PStr ''eps=1e-08'']),
                         (''max_train_epochs'', PInt 45),
                         (''train_batch_size'', PInt 2),
                         (''gradient_accumulation_steps'', PInt 4),
                         (''noise_offset'', PFloat (fl_lit 15 1000)),
                         (''lr_scheduler'', PStr ''constant_with_warmup''),
                         (''max_data_loader_n_workers'', PInt 2)]"
proof -
  have h: "xxs_tier (PDict [(''optimizer_args'', PList [PStr ''lr=1'', PStr ''weight_decay=0.01''])])
     = Inr (Some (PDict [(''optimizer_args'', PList [PStr ''betas=(0.9, 0.999)'',
                             PStr ''weight_decay=0.0002'', PStr ''eps=1e-08'']),
                         (''max_train_epochs'', PInt 45),
                         (''train_batch_size'', PInt 2),
                         (''gradient_accumulation_steps'', PInt 4),
                         (''noise_offset'', PFloat (fl_lit 15 1000)),
                         (''lr_scheduler'', PStr ''constant_with_warmup''),
                         (''max_data_loader_n_workers'', PInt 2)]))"
    by code_simp
  from optimizer_args_substring_scan [THEN conjunct1, THEN spec, THEN spec, THEN mp, OF h] h
  show ?thesis by (rule conjI [rotated])
qed

section \<open>The xxl tier\<close>

lemma py_min_float_eq: "py_min (PFloat c) (PFloat w) = Inr (PFloat (fl_min c w))"
  by (simp add: py_min_float fl_min_def)

lemma scale_clamp_field_float_eq:
  assumes "float_field c k"
  shows "scale_clamp_field k ceiling f c =
     Inr (case map_of c k of
            Some (PFloat x) \<Rightarrow> dict_set k (PFloat (fl_min ceiling (fl_mul x f))) c
          | _ \<Rightarrow> c)"
  using assms
  by (simp add: float_field_def scale_clamp_field_def py_min_float_eq
      split: option.splits pyval.splits)

lemma dict_get_int:
  "map_of c k = map_of d k \<Longrightarrow> int_field d k \<Longrightarrow> dict_get c k (PInt n) = PInt (int_or d k n)"
  by (simp add: int_field_def dict_get_def int_or_def split: option.splits pyval.splits)

lemma derive_xxl_typed:
  assumes "typed_xl xl"
  shows "\<exists>r. derive_xxl xl = Inr r \<and> xxl_rules xl r \<and> xxl_lr_rules xl r"
proof -
  from assms have mte: "int_field xl ''max_train_epochs''"
    and tbs: "int_field xl ''train_batch_size''"
    and lws: "int_field xl ''lr_warmup_steps''"
    and ulr: "float_field xl ''unet_lr''"
    and tlr: "float_field xl ''text_encoder_lr''"
    by (simp_all add: typed_xl_def)
  define c1 where "c1 = dict_set ''max_train_epochs''
      (PInt (max 8 (int_or xl ''max_train_epochs'' 11 - 3))) xl"
  define c3 where "c3 = dict_set ''gradient_accumulation_steps'' (PInt 1)
      (dict_set ''train_batch_size'' (PInt (min 16 (int_or xl ''train_batch_size'' 12 + 4))) c1)"
  define c4 where "c4 = (case map_of c3 ''unet_lr'' of
      Some (PFloat x) \<Rightarrow> dict_set ''unet_lr''
        (PFloat (fl_min (fl_lit 5 100000) (fl_mul x (fl_lit 115 100)))) c3 | _ \<Rightarrow> c3)"
  define c5 where "c5 = (case map_of c4 ''text_encoder_lr'' of
      Some (PFloat x) \<Rightarrow> dict_set ''text_encoder_lr''
        (PFloat (fl_min (fl_lit 25 10000000) (fl_mul x (fl_lit 115 100)))) c4 | _ \<Rightarrow> c4)"
  define c7 where "c7 = dict_set ''lr_scheduler'' (PStr ''cosine'')
      (dict_set ''noise_offset'' (PFloat (fl_lit 45 1000)) c5)"
  define r where "r = dict_set ''max_data_loader_n_workers'' (PInt 8)
      (dict_set ''lr_warmup_steps'' (PInt (int_or xl ''lr_warmup_steps'' 120 + 30)) c7)"
  have b1: "dict_get c1 ''train_batch_size'' (PInt 12) = PInt (int_or xl ''train_batch_size'' 12)"
    by (rule dict_get_int [OF _ tbs]) (simp add: c1_def)
  have u3: "map_of c3 ''unet_lr'' = map_of xl ''unet_lr''"
    and t3: "map_of c3 ''text_encoder_lr'' = map_of xl ''text_encoder_lr''"
    by (simp_all add: c3_def c1_def)
  have t4: "map_of c4 ''text_encoder_lr'' = map_of xl ''text_encoder_lr''"
    by (simp add: c4_def t3 split: option.splits pyval.splits)
  have ff3: "float_field c3 ''unet_lr''"
    using ulr by (simp add: float_field_def u3)
  have ff4: "float_field c4 ''text_encoder_lr''"
    using tlr by (simp add: float_field_def t4)
  have s4: "scale_clamp_field ''unet_lr'' (fl_lit 5 100000) (fl_lit 115 100) c3 = Inr c4"
    unfolding c4_def by (rule scale_clamp_field_float_eq [OF ff3])
  have s5: "scale_clamp_field ''text_encoder_lr'' (fl_lit 25 10000000) (fl_lit 115 100) c4
      = Inr c5"
    unfolding c5_def by (rule scale_clamp_field_float_eq [OF ff4])
  have five: "map_of c5 j = map_of c3 j" if "j \<noteq> ''unet_lr''" "j \<noteq> ''text_encoder_lr''" for j
    using that by (simp add: c5_def c4_def split: option.splits pyval.splits)
  have u5: "map_of c5 ''unet_lr'' = map_of c4 ''unet_lr''"
    by (simp add: c5_def split: option.splits pyval.splits)
  have w7: "dict_get c7 ''lr_warmup_steps'' (PInt 120) = PInt (int_or xl ''lr_warmup_steps'' 120)"
    by (rule dict_get_int [OF _ lws]) (simp add: c7_def five c3_def c1_def)
  have run: "derive_xxl xl = Inr r"
    unfolding derive_xxl_def int_field_get [OF mte]
    by (simp add: c1_def [symmetric] b1 c3_def [symmetric] s4 s5 c7_def [symmetric] w7 r_def
        Let_def)
  have f1: "map_of r ''max_train_epochs'' =
      Some (PInt (max 8 (int_or xl ''max_train_epochs'' 11 - 3)))"
    by (simp add: r_def c7_def five c3_def c1_def)
  have f2: "map_of r ''train_batch_size'' =
      Some (PInt (min 16 (int_or xl ''train_batch_size'' 12 + 4)))"
    by (simp add: r_def c7_def five c3_def)
  have f3: "map_of r ''gradient_accumulation_steps'' = Some (PInt 1)"
    by (simp add: r_def c7_def five c3_def)
  have f4: "lr_rule ''unet_lr'' (\<lambda>x. fl_min (fl_lit 5 100000) (fl_mul x (fl_lit 115 100))) xl r"
    by (simp add: lr_rule_def r_def c7_def u5 c4_def u3)
  have f5: "lr_rule ''text_encoder_lr''
      (\<lambda>x. fl_min (fl_lit 25 10000000) (fl_mul x (fl_lit 115 100))) xl r"
    by (simp add: lr_rule_def r_def c7_def c5_def t4)
  have f6: "map_of r ''noise_offset'' = Some (PFloat (fl_lit 45 1000))"
    by (simp add: r_def c7_def)
  have f7: "map_of r ''lr_scheduler'' = Some (PStr ''cosine'')"
    by (simp add: r_def c7_def)
  have f8: "map_of r ''lr_warmup_steps'' = Some (PInt (int_or xl ''lr_warmup_steps'' 120 + 30))"
    by (simp add: r_def)
  have f9: "map_of r ''max_data_loader_n_workers'' = Some (PInt 8)"
    by (simp add: r_def)
  have f10: "\<forall>k. k \<notin> {''max_train_epochs'', ''train_batch_size'',
                  ''gradient_accumulation_steps'', ''unet_lr'', ''text_encoder_lr'',
                  ''noise_offset'', ''lr_scheduler'', ''lr_warmup_steps'',
                  ''max_data_loader_n_workers''} \<longrightarrow>
            map_of r k = map_of xl k"
    by (simp add: r_def c7_def five c3_def c1_def)
  have rules: "xxl_rules xl r"
    unfolding xxl_rules_def by (intro conjI; fact)
  have lr: "xxl_lr_rules xl r"
    unfolding xxl_lr_rules_def by (intro conjI; fact)
  show ?thesis
    using run rules lr by (intro exI [of _ r] conjI)
qed

lemma xxl_tier_dict:
  "xl \<noteq> [] \<Longrightarrow> xxl_tier (PDict xl) = and_then (derive_xxl xl) (\<lambda>r. Inr (Some (PDict r)))"
  by (simp add: xxl_tier_def)

lemma xxl_tier_typed:
  assumes "xl \<noteq> []" "typed_xl xl"
  shows "\<exists>r. xxl_tier (PDict xl) = Inr (Some (PDict r)) \<and> xxl_rules xl r \<and> xxl_lr_rules xl r"
proof -
  from derive_xxl_typed [OF assms(2)] obtain r
    where r: "derive_xxl xl = Inr r \<and> xxl_rules xl r \<and> xxl_lr_rules xl r" ..
  then have "xxl_tier (PDict xl) = Inr (Some (PDict r))"
    by (simp add: xxl_tier_dict [OF assms(1)])
  with r show ?thesis
    by (intro exI [of _ r] conjI) simp_all
qed

text \<open>
  Claim C7. For every non-empty xl configuration with well-typed fields the derived xxl
  tier exists, and apart from the learning rates: \<^verbatim>\<open>max_train_epochs\<close> is the larger of 8
  and the one of xl (11 when absent) minus 3, \<^verbatim>\<open>train_batch_size\<close> the smaller of 16 and
  the one of xl (12 when absent) plus 4, \<^verbatim>\<open>gradient_accumulation_steps\<close> is 1,
  \<^verbatim>\<open>noise_offset\<close> is 0.045, \<^verbatim>\<open>lr_scheduler\<close> is \<^verbatim>\<open>cosine\<close>, \<^verbatim>\<open>lr_warmup_steps\<close> is the one
  of xl (120 when absent) plus 30, \<^verbatim>\<open>max_data_loader_n_workers\<close> is 8, and every other
  field is the one of xl.
\<close>

theorem xxl_tier_overrides:
  "\<forall>xl. xl \<noteq> [] \<and> typed_xl xl \<longrightarrow>
      (\<exists>r. xxl_tier (PDict xl) = Inr (Some (PDict r)) \<and> xxl_rules xl r)"
proof (intro allI impI, elim conjE)
  fix xl :: pydict
  assume "xl \<noteq> []" "typed_xl xl"
  from xxl_tier_typed [OF this] obtain r
    where r: "xxl_tier (PDict xl) = Inr (Some (PDict r)) \<and> xxl_rules xl r \<and> xxl_lr_rules xl r" ..
  then show "\<exists>r. xxl_tier (PDict xl) = Inr (Some (PDict r)) \<and> xxl_rules xl r"
    by (intro exI [of _ r] conjI) simp_all
qed

theorem xxl_tier_overrides_witness:
  "[(''max_train_epochs'', PInt 9), (''train_batch_size'', PInt 14)] \<noteq> []
   \<and> typed_xl [(''max_train_epochs'', PInt 9), (''train_batch_size'', PInt 14)]
   \<and> (\<exists>r. xxl_tier (PDict [(''max_train_epochs'', PInt 9), (''train_batch_size'', PInt 14)])
             = Inr (Some (PDict r))
          \<and> map_of r ''max_train_epochs'' = Some (PInt 8)
          \<and> map_of r ''train_batch_size'' = Some (PInt 16)
          \<and> map_of r ''lr_warmup_steps'' = Some (PInt 150))"
proof -
  have h: "[(''max_train_epochs'', PInt 9), (''train_batch_size'', PInt 14)] \<noteq> []
   \<and> typed_xl [(''max_train_epochs'', PInt 9), (''train_batch_size'', PInt 14)]"
    by (simp add: typed_xl_def int_field_def float_field_def)
  from xxl_tier_overrides [THEN spec, THEN mp, OF h] obtain r
    where r: "xxl_tier (PDict [(''max_train_epochs'', PInt 9), (''train_batch_size'', PInt 14)])
             = Inr (Some (PDict r))
       \<and> xxl_rules [(''max_train_epochs'', PInt 9), (''train_batch_size'', PInt 14)] r" ..
  from r [THEN conjunct2]
  have "map_of r ''max_train_epochs'' = Some (PInt 8)
          \<and> map_of r ''train_batch_size'' = Some (PInt 16)
          \<and> map_of r ''lr_warmup_steps'' = Some (PInt 150)"
    by (simp add: xxl_rules_def int_or_def)
  with r h show ?thesis
    by (intro conjI exI [of _ r]) simp_all
qed

text \<open>The clamp: the minimum is never above the ceiling.\<close>

lemma ext_lt_asym: "ext_lt a b \<Longrightarrow> \<not> ext_lt b a"
  by (cases a; cases b) (simp_all add: Let_def min.commute)

lemma ext_lt_irrefl: "\<not> ext_lt a a"
  by (cases a) simp_all

lemma fl_min_le_ceiling: "\<not> ext_lt (ext_of_float c) (ext_of_float (fl_min c x))"
  by (simp add: fl_min_def ext_lt_asym ext_lt_irrefl)

text \<open>
  Claim C6, as stated, fails: the xxl tier of an xl with \<^verbatim>\<open>unet_lr = 1e-06\<close> holds the
  binary64 product \<^verbatim>\<open>1e-06 * 1.15\<close>, which prints as \<^verbatim>\<open>1.1499999999999998e-06\<close> and is
  the float just below \<^verbatim>\<open>1.15e-06\<close>.
\<close>

theorem xxl_unet_lr_counterexample:
  "xxl_tier (PDict [(''unet_lr'', PFloat (fl_lit 1 1000000))])
     = Inr (Some (PDict [(''unet_lr'', PFloat (Fin False 5430721455300091 (- 72))),
                         (''max_train_epochs'', PInt 8),
                         (''train_batch_size'', PInt 16),
                         (''gradient_accumulation_steps'', PInt 1),
                         (''noise_offset'', PFloat (fl_lit 45 1000)),
                         (''lr_scheduler'', PStr ''cosine''),
                         (''lr_warmup_steps'', PInt 150),
                         (''max_data_loader_n_workers'', PInt 8)]))
   \<and> fl_lit 115 100000000 = Fin False 5430721455300092 (- 72)
   \<and> float_repr (Fin False 5430721455300091 (- 72)) = ''1.1499999999999998e-06''"
  by code_simp

text \<open>
  Claim C6, amended. For every non-empty xl configuration with well-typed fields the
  derived xxl tier exists; \<^verbatim>\<open>unet_lr\<close>, when present, is \<^verbatim>\<open>min(5e-05, unet_lr * 1.15)\<close> and
  \<^verbatim>\<open>text_encoder_lr\<close>, when present, is \<^verbatim>\<open>min(2.5e-06, text_encoder_lr * 1.15)\<close>, in
  binary64 arithmetic; a rate absent from xl stays absent. The minimum is never above
  its ceiling. The input \<^verbatim>\<open>1e-4\<close> gives exactly \<^verbatim>\<open>5e-05\<close>; the input \<^verbatim>\<open>1e-6\<close> stays
  below the ceiling and gives the product \<^verbatim>\<open>1.1499999999999998e-06\<close>.
\<close>

theorem xxl_learning_rates:
  "(\<forall>xl. xl \<noteq> [] \<and> typed_xl xl \<longrightarrow>
      (\<exists>r. xxl_tier (PDict xl) = Inr (Some (PDict r)) \<and> xxl_lr_rules xl r))
   \<and> (\<forall>c x. \<not> ext_lt (ext_of_float c) (ext_of_float (fl_min c x)))
   \<and> fl_min (fl_lit 5 100000) (fl_mul (fl_lit 1 10000) (fl_lit 115 100)) = fl_lit 5 100000
   \<and> fl_min (fl_lit 5 100000) (fl_mul (fl_lit 1 1000000) (fl_lit 115 100))
       = fl_mul (fl_lit 1 1000000) (fl_lit 115 100)
   \<and> float_repr (fl_mul (fl_lit 1 1000000) (fl_lit 115 100)) = ''1.1499999999999998e-06''"
proof (intro conjI)
  show "\<forall>xl. xl \<noteq> [] \<and> typed_xl xl \<longrightarrow>
      (\<exists>r. xxl_tier (PDict xl) = Inr (Some (PDict r)) \<and> xxl_lr_rules xl r)"
  proof (intro allI impI, elim conjE)
    fix xl :: pydict
    assume "xl \<noteq> []" "typed_xl xl"
    from xxl_tier_typed [OF this] obtain r
      where r: "xxl_tier (PDict xl) = Inr (Some (PDict r)) \<and> xxl_rules xl r \<and> xxl_lr_rules xl r" ..
    then show "\<exists>r. xxl_tier (PDict xl) = Inr (Some (PDict r)) \<and> xxl_lr_rules xl r"
      by (intro exI [of _ r] conjI) simp_all
  qed
  show "\<forall>c x. \<not> ext_lt (ext_of_float c) (ext_of_float (fl_min c x))"
    by (simp add: fl_min_le_ceiling)
  show "fl_min (fl_lit 5 100000) (fl_mul (fl_lit 1 10000) (fl_lit 115 100)) = fl_lit 5 100000"
    by code_simp
  show "fl_min (fl_lit 5 100000) (fl_mul (fl_lit 1 1000000) (fl_lit 115 100))
       = fl_mul (fl_lit 1 1000000) (fl_lit 115 100)"
    by code_simp
  show "float_repr (fl_mul (fl_lit 1 1000000) (fl_lit 115 100)) = ''1.1499999999999998e-06''"
    by code_simp
qed

theorem xxl_learning_rates_witness:
  "[(''unet_lr'', PFloat (fl_lit 1 10000))] \<noteq> []
   \<and> typed_xl [(''unet_lr'', PFloat (fl_lit 1 10000))]
   \<and> (\<exists>r. xxl_tier (PDict [(''unet_lr'', PFloat (fl_lit 1 10000))]) = Inr (Some (PDict r))
          \<and> map_of r ''unet_lr'' = Some (PFloat (fl_lit 5 100000))
          \<and> map_of r ''text_encoder_lr'' = None)"
proof -
  have h: "[(''unet_lr'', PFloat (fl_lit 1 10000))] \<noteq> []
   \<and> typed_xl [(''unet_lr'', PFloat (fl_lit 1 10000))]"
    by (simp add: typed_xl_def int_field_def float_field_def)
  from xxl_learning_rates [THEN conjunct1, THEN spec, THEN mp, OF h] obtain r
    where r: "xxl_tier (PDict [(''unet_lr'', PFloat (fl_lit 1 10000))]) = Inr (Some (PDict r))
       \<and> xxl_lr_rules [(''unet_lr'', PFloat (fl_lit 1 10000))] r" ..
  have clamp: "fl_min (fl_lit 5 100000) (fl_mul (fl_lit 1 10000) (fl_lit 115 100))
      = fl_lit 5 100000"
    by (rule xxl_learning_rates [THEN conjunct2, THEN conjunct2, THEN conjunct1])
  from r [THEN conjunct2]
  have "map_of r ''unet_lr'' = Some (PFloat (fl_lit 5 100000))
          \<and> map_of r ''text_encoder_lr'' = None"
    by (simp add: xxl_lr_rules_def lr_rule_def clamp)
  with r h show ?thesis
    by (intro conjI exI [of _ r]) simp_all
qed

section \<open>One model\<close>

subsection \<open>Assignment and the display\<close>

lemma dict_set_new: "k \<notin> fst ` set d \<Longrightarrow> dict_set k v d = d @ [(k, v)]"
  by (induction d) (auto simp add: dict_set_def)

lemma dict_set_Cons_other: "k \<noteq> a \<Longrightarrow> dict_set k v ((a, x) # d) = (a, x) # dict_set k v d"
  by (simp add: dict_set_def)

lemma dict_set_idem: "dict_set k v (dict_set k v d) = dict_set k v d"
  by (induction d) (auto simp add: dict_set_def)


lemma map_of_filter_key:
  "P k \<Longrightarrow> map_of (filter (\<lambda>kv. P (fst kv)) d) k = map_of d k"
  by (induction d) auto

lemma dict_get_absent: "k \<notin> fst ` set d \<Longrightarrow> dict_get d k x = x"
  by (simp add: dict_get_def map_of_eq_None_iff [THEN iffD2])

lemma filter_absent: "a \<notin> fst ` set d \<Longrightarrow> filter (\<lambda>kv. fst kv \<noteq> a) d = d"
  by (induction d) auto

lemma foldl_dict_set_front:
  assumes "distinct (map fst d)" "q \<notin> fst ` set ys" "fst ` set ys \<inter> fst ` set d = {}"
  shows "foldl (\<lambda>acc (k, v). dict_set k v acc) ((q, x) # ys) d
           = (q, dict_get d q x) # ys @ filter (\<lambda>kv. fst kv \<noteq> q) d"
  using assms
proof (induction d arbitrary: x ys)
  case Nil
  then show ?case by (simp add: dict_get_def)
next
  case (Cons kv d)
  obtain k v where kv: "kv = (k, v)" by (cases kv)
  from Cons.prems have dist: "distinct (map fst d)" and kd: "k \<notin> fst ` set d"
    and kys: "k \<notin> fst ` set ys"
    by (auto simp add: kv)
  show ?case
  proof (cases "k = q")
    case True
    have "foldl (\<lambda>acc (k, v). dict_set k v acc) ((q, x) # ys) (kv # d)
        = foldl (\<lambda>acc (k, v). dict_set k v acc) ((q, v) # ys) d"
      by (simp add: kv True dict_set_def)
    also have "\<dots> = (q, dict_get d q v) # ys @ filter (\<lambda>kv. fst kv \<noteq> q) d"
      using Cons.prems by (intro Cons.IH [OF dist]) (auto simp add: kv)
    finally have "foldl (\<lambda>acc (k, v). dict_set k v acc) ((q, x) # ys) (kv # d)
        = (q, dict_get d q v) # ys @ filter (\<lambda>kv. fst kv \<noteq> q) d" .
    moreover have "dict_get d q v = v"
      using kd True by (simp add: dict_get_absent)
    moreover have "dict_get (kv # d) q x = v"
      by (simp add: kv True dict_get_def)
    ultimately show ?thesis
      by (simp add: kv True)
  next
    case False
    have "foldl (\<lambda>acc (k, v). dict_set k v acc) ((q, x) # ys) (kv # d)
        = foldl (\<lambda>acc (k, v). dict_set k v acc) ((q, x) # (ys @ [(k, v)])) d"
      using False kys by (simp add: kv dict_set_Cons_other dict_set_new)
    also have "\<dots> = (q, dict_get d q x) # (ys @ [(k, v)]) @ filter (\<lambda>kv. fst kv \<noteq> q) d"
      using Cons.prems False kd by (intro Cons.IH [OF dist]) (auto simp add: kv)
    finally show ?thesis
      using False by (simp add: kv dict_get_def)
  qed
qed

lemma prepend_xxs_eq:
  assumes "distinct (map fst d)"
  shows "prepend_xxs x d = (''xxs'', dict_get d ''xxs'' x) # filter (\<lambda>kv. fst kv \<noteq> ''xxs'') d"
  unfolding prepend_xxs_def
  using foldl_dict_set_front [OF assms, of "''xxs''" "[]" x] by simp

subsection \<open>Placing the tiers\<close>

lemma put_xxs_Some:
  "distinct (map fst T) \<Longrightarrow>
   put_xxs (Some x) T = (''xxs'', dict_get T ''xxs'' x) # filter (\<lambda>kv. fst kv \<noteq> ''xxs'') T"
  by (simp add: put_xxs_def prepend_xxs_eq)

lemma keys_filter_neq: "a \<notin> fst ` set (filter (\<lambda>kv. fst kv \<noteq> a) T)"
  by auto

lemma distinct_filter_keys:
  "distinct (map fst T) \<Longrightarrow> distinct (map fst (filter P T))"
  by (simp add: distinct_map_filter)

lemma distinct_put_xxs: "distinct (map fst T) \<Longrightarrow> distinct (map fst (put_xxs xo T))"
proof (cases xo)
  case None
  then show "distinct (map fst T) \<Longrightarrow> ?thesis" by (simp add: put_xxs_def)
next
  case (Some x)
  assume d: "distinct (map fst T)"
  have "''xxs'' \<notin> fst ` set (filter (\<lambda>kv. fst kv \<noteq> ''xxs'') T)"
    by (rule keys_filter_neq)
  with d show ?thesis
    by (simp add: Some put_xxs_Some distinct_filter_keys del: set_filter)
qed

lemma distinct_put_xxl: "distinct (map fst T) \<Longrightarrow> distinct (map fst (put_xxl yo T))"
  by (cases yo) (simp_all add: put_xxl_def distinct_dict_set)

lemma map_of_put_xxs_other:
  assumes "distinct (map fst T)" "k \<noteq> ''xxs''"
  shows "map_of (put_xxs xo T) k = map_of T k"
proof (cases xo)
  case None
  then show ?thesis by (simp add: put_xxs_def)
next
  case (Some x)
  have "map_of (filter (\<lambda>kv. fst kv \<noteq> ''xxs'') T) k = map_of T k"
    using assms(2) by (rule map_of_filter_key [where P = "\<lambda>j. j \<noteq> ''xxs''"])
  then show ?thesis
    using assms by (simp add: Some put_xxs_Some)
qed

lemma map_of_put_xxs_xxs:
  assumes "distinct (map fst T)"
  shows "map_of (put_xxs (Some x) T) ''xxs'' = Some (dict_get T ''xxs'' x)"
  using assms by (simp add: put_xxs_Some)

lemma map_of_put_xxl_other: "k \<noteq> ''xxl'' \<Longrightarrow> map_of (put_xxl yo T) k = map_of T k"
  by (cases yo) (simp_all add: put_xxl_def)

lemma map_of_put_xxl_xxl: "map_of (put_xxl (Some y) T) ''xxl'' = Some y"
  by (simp add: put_xxl_def)

lemma put_xxs_idem:
  assumes "distinct (map fst T)"
  shows "put_xxs xo (put_xxl yo (put_xxs xo T)) = put_xxl yo (put_xxs xo T)"
proof (cases xo)
  case None
  then show ?thesis by (simp add: put_xxs_def)
next
  case (Some x)
  define F where "F = filter (\<lambda>kv. fst kv \<noteq> ''xxs'') T"
  define v where "v = dict_get T ''xxs'' x"
  have M: "put_xxs (Some x) T = (''xxs'', v) # F"
    using assms by (simp add: put_xxs_Some F_def v_def)
  have aF: "''xxs'' \<notin> fst ` set F"
    unfolding F_def by (rule keys_filter_neq)
  have dF: "distinct (map fst F)"
    unfolding F_def using assms by (rule distinct_filter_keys)
  show ?thesis
  proof (cases yo)
    case None
    have "distinct (map fst ((''xxs'', v) # F))"
      using aF dF by simp
    then have "put_xxs (Some x) ((''xxs'', v) # F)
        = (''xxs'', dict_get ((''xxs'', v) # F) ''xxs'' x)
          # filter (\<lambda>kv. fst kv \<noteq> ''xxs'') ((''xxs'', v) # F)"
      by (rule put_xxs_Some)
    also have "\<dots> = (''xxs'', v) # F"
      using aF by (simp add: dict_get_def filter_absent)
    finally show ?thesis
      by (simp add: Some None M put_xxl_def)
  next
    case (Some y)
    define G where "G = dict_set ''xxl'' y F"
    have L: "put_xxl (Some y) ((''xxs'', v) # F) = (''xxs'', v) # G"
      by (simp add: put_xxl_def G_def dict_set_Cons_other)
    have aG: "''xxs'' \<notin> fst ` set G"
      using aF by (simp add: G_def keys_dict_set)
    have dG: "distinct (map fst G)"
      unfolding G_def using dF by (rule distinct_dict_set)
    have "distinct (map fst ((''xxs'', v) # G))"
      using aG dG by simp
    then have "put_xxs (Some x) ((''xxs'', v) # G)
        = (''xxs'', dict_get ((''xxs'', v) # G) ''xxs'' x)
          # filter (\<lambda>kv. fst kv \<noteq> ''xxs'') ((''xxs'', v) # G)"
      by (rule put_xxs_Some)
    also have "\<dots> = (''xxs'', v) # G"
      using aG by (simp add: dict_get_def filter_absent)
    finally show ?thesis
      by (simp add: \<open>xo = Some x\<close> Some M L)
  qed
qed

lemma put_xxl_idem: "put_xxl yo (put_xxl yo T) = put_xxl yo T"
  by (cases yo) (simp_all add: put_xxl_def dict_set_idem)

lemma put_put_idem:
  assumes "distinct (map fst T)"
  shows "put_xxl yo (put_xxs xo (put_xxl yo (put_xxs xo T))) = put_xxl yo (put_xxs xo T)"
  by (simp add: put_xxs_idem [OF assms] put_xxl_idem)

lemma augment_no_xs: "\<not> has_key T ''xs'' \<Longrightarrow> augment T = Inr T"
  by (simp add: augment_def)

lemma augment_both: "has_key T ''xxs'' \<Longrightarrow> has_key T ''xxl'' \<Longrightarrow> augment T = Inr T"
  by (simp add: augment_def)

lemma augment_run:
  "has_key T ''xs'' \<Longrightarrow> \<not> (has_key T ''xxs'' \<and> has_key T ''xxl'') \<Longrightarrow>
   augment T =
     and_then (xxs_tier (dict_get T ''xs'' (PDict []))) (\<lambda>xxs.
     and_then (xxl_tier (dict_get T ''xl'' (PDict []))) (\<lambda>xxl.
     Inr (put_xxl xxl (put_xxs xxs T))))"
  by (cases "has_key T ''xxs''"; cases "has_key T ''xxl''") (simp_all add: augment_def Let_def)

lemma augment_run_Inr:
  assumes "has_key T ''xs''" "\<not> (has_key T ''xxs'' \<and> has_key T ''xxl'')"
    and "augment T = Inr T'"
  shows "\<exists>xo yo. xxs_tier (dict_get T ''xs'' (PDict [])) = Inr xo
           \<and> xxl_tier (dict_get T ''xl'' (PDict [])) = Inr yo
           \<and> T' = put_xxl yo (put_xxs xo T)"
proof -
  from assms have run: "and_then (xxs_tier (dict_get T ''xs'' (PDict []))) (\<lambda>xxs.
     and_then (xxl_tier (dict_get T ''xl'' (PDict []))) (\<lambda>xxl.
     Inr (put_xxl xxl (put_xxs xxs T)))) = Inr T'"
    by (simp add: augment_run)
  then obtain xo where xo: "xxs_tier (dict_get T ''xs'' (PDict [])) = Inr xo"
    by (cases "xxs_tier (dict_get T ''xs'' (PDict []))") simp_all
  with run obtain yo where yo: "xxl_tier (dict_get T ''xl'' (PDict [])) = Inr yo"
    by (cases "xxl_tier (dict_get T ''xl'' (PDict []))") simp_all
  from run xo yo have "T' = put_xxl yo (put_xxs xo T)"
    by simp
  with xo yo show ?thesis
    by (intro exI [of _ xo] exI [of _ yo] conjI)
qed

lemma has_key_put:
  assumes "distinct (map fst T)" "k \<noteq> ''xxs''" "k \<noteq> ''xxl''"
  shows "has_key (put_xxl yo (put_xxs xo T)) k = has_key T k"
  using assms by (simp add: has_key_def map_of_put_xxl_other map_of_put_xxs_other)

lemma dict_get_put:
  assumes "distinct (map fst T)" "k \<noteq> ''xxs''" "k \<noteq> ''xxl''"
  shows "dict_get (put_xxl yo (put_xxs xo T)) k x = dict_get T k x"
  using assms by (simp add: dict_get_def map_of_put_xxl_other map_of_put_xxs_other)

lemma augment_fixed:
  assumes d: "distinct (map fst T)" and a: "augment T = Inr T'"
  shows "augment T' = Inr T'"
proof (cases "has_key T ''xs'' \<and> \<not> (has_key T ''xxs'' \<and> has_key T ''xxl'')")
  case False
  then have "augment T = Inr T"
    by (cases "has_key T ''xs''") (simp_all add: augment_no_xs augment_both)
  with a show ?thesis by simp
next
  case True
  then have xs: "has_key T ''xs''" and nb: "\<not> (has_key T ''xxs'' \<and> has_key T ''xxl'')"
    by simp_all
  from augment_run_Inr [OF xs nb a] obtain xo yo
    where r: "xxs_tier (dict_get T ''xs'' (PDict [])) = Inr xo
           \<and> xxl_tier (dict_get T ''xl'' (PDict [])) = Inr yo
           \<and> T' = put_xxl yo (put_xxs xo T)"
    by (elim exE)
  then have xo: "xxs_tier (dict_get T ''xs'' (PDict [])) = Inr xo"
    and yo: "xxl_tier (dict_get T ''xl'' (PDict [])) = Inr yo"
    and T': "T' = put_xxl yo (put_xxs xo T)"
    by simp_all
  have xs': "has_key T' ''xs''"
    using xs by (simp add: T' has_key_put [OF d])
  have gx: "dict_get T' ''xs'' (PDict []) = dict_get T ''xs'' (PDict [])"
    by (simp add: T' dict_get_put [OF d])
  have gl: "dict_get T' ''xl'' (PDict []) = dict_get T ''xl'' (PDict [])"
    by (simp add: T' dict_get_put [OF d])
  show ?thesis
  proof (cases "has_key T' ''xxs'' \<and> has_key T' ''xxl''")
    case True
    then show ?thesis by (simp add: augment_both)
  next
    case False
    then have "augment T' = Inr (put_xxl yo (put_xxs xo T'))"
      using xs' by (simp add: augment_run gx gl xo yo)
    also have "put_xxl yo (put_xxs xo T') = T'"
      unfolding T' by (rule put_put_idem [OF d])
    finally show ?thesis .
  qed
qed

text \<open>
  Claim C3. On every table (a dictionary, so with distinct keys) augmenting twice is the
  same as augmenting once, an exception of the first run included; and a table that
  holds both the \<^verbatim>\<open>xxs\<close> key and the \<^verbatim>\<open>xxl\<close> key is returned as it is.
\<close>

theorem augment_idempotent:
  "\<forall>T. distinct (map fst T) \<longrightarrow>
     and_then (augment T) augment = augment T
     \<and> (has_key T ''xxs'' \<and> has_key T ''xxl'' \<longrightarrow> augment T = Inr T)"
proof (intro allI impI conjI)
  fix T :: pydict
  assume d: "distinct (map fst T)"
  show "and_then (augment T) augment = augment T"
  proof (cases "augment T")
    case (Inl e)
    then show ?thesis by simp
  next
    case (Inr T')
    then show ?thesis by (simp add: augment_fixed [OF d Inr])
  qed
next
  fix T :: pydict
  assume "has_key T ''xxs'' \<and> has_key T ''xxl''"
  then show "augment T = Inr T"
    by (simp add: augment_both)
qed

theorem augment_idempotent_witness:
  "distinct (map fst [(''xs'', PDict [(''a'', PInt 1)]), (''xl'', PDict [])])
   \<and> augment [(''xs'', PDict [(''a'', PInt 1)]), (''xl'', PDict [])]
       = Inr [(''xxs'', PDict [(''a'', PInt 1), (''max_train_epochs'', PInt 45),
                (''train_batch_size'', PInt 2), (''gradient_accumulation_steps'', PInt 4),
                (''noise_offset'', PFloat (fl_lit 15 1000)),
                (''lr_scheduler'', PStr ''constant_with_warmup''),
                (''max_data_loader_n_workers'', PInt 2)]),
              (''xs'', PDict [(''a'', PInt 1)]), (''xl'', PDict [])]
   \<and> and_then (augment [(''xs'', PDict [(''a'', PInt 1)]), (''xl'', PDict [])]) augment
       = augment [(''xs'', PDict [(''a'', PInt 1)]), (''xl'', PDict [])]"
proof -
  have h: "distinct (map fst [(''xs'', PDict [(''a'', PInt 1)]), (''xl'', PDict [])])"
    by simp
  have r: "augment [(''xs'', PDict [(''a'', PInt 1)]), (''xl'', PDict [])]
       = Inr [(''xxs'', PDict [(''a'', PInt 1), (''max_train_epochs'', PInt 45),
                (''train_batch_size'', PInt 2), (''gradient_accumulation_steps'', PInt 4),
                (''noise_offset'', PFloat (fl_lit 15 1000)),
                (''lr_scheduler'', PStr ''constant_with_warmup''),
                (''max_data_loader_n_workers'', PInt 2)]),
              (''xs'', PDict [(''a'', PInt 1)]), (''xl'', PDict [])]"
    by code_simp
  from augment_idempotent [THEN spec, THEN mp, OF h]
  have "and_then (augment [(''xs'', PDict [(''a'', PInt 1)]), (''xl'', PDict [])]) augment
       = augment [(''xs'', PDict [(''a'', PInt 1)]), (''xl'', PDict [])]"
    by (rule conjunct1)
  with h r show ?thesis
    by (intro conjI)
qed

lemma put_xxs_new:
  assumes "distinct (map fst T)" "\<not> has_key T ''xxs''"
  shows "put_xxs (Some x) T = (''xxs'', x) # T"
proof -
  from assms(2) have "''xxs'' \<notin> fst ` set T"
    by (simp add: has_key_iff)
  then show ?thesis
    using assms(1) by (simp add: put_xxs_Some dict_get_absent filter_absent)
qed


lemma put_xxl_Cons_xxs: "put_xxl yo ((''xxs'', x) # M) = (''xxs'', x) # put_xxl yo M"
  by (cases yo) (simp_all add: put_xxl_def dict_set_Cons_other)

lemma has_key_put_xxs_other:
  "distinct (map fst T) \<Longrightarrow> k \<noteq> ''xxs'' \<Longrightarrow> has_key (put_xxs xo T) k = has_key T k"
  by (simp add: has_key_def map_of_put_xxs_other)






subsection \<open>Skipping a tier\<close>

lemma xxs_tier_empty: "xxs_tier (PDict []) = Inr None"
  by (simp add: xxs_tier_def)

lemma xxl_tier_empty: "xxl_tier (PDict []) = Inr None"
  by (simp add: xxl_tier_def)

lemma xxs_tier_dict_Inr:
  assumes "xs \<noteq> []" "xxs_tier (PDict xs) = Inr xo"
  shows "\<exists>x. derive_xxs xs = Inr x \<and> xo = Some (PDict x)"
proof (cases "derive_xxs xs")
  case (Inl e)
  with assms show ?thesis by (simp add: xxs_tier_dict)
next
  case (Inr x)
  with assms have "xo = Some (PDict x)" by (simp add: xxs_tier_dict)
  with Inr show ?thesis by (intro exI [of _ x] conjI)
qed

lemma xxl_tier_dict_Inr:
  assumes "xl \<noteq> []" "xxl_tier (PDict xl) = Inr yo"
  shows "\<exists>y. derive_xxl xl = Inr y \<and> yo = Some (PDict y)"
proof (cases "derive_xxl xl")
  case (Inl e)
  with assms show ?thesis by (simp add: xxl_tier_dict)
next
  case (Inr y)
  with assms have "yo = Some (PDict y)" by (simp add: xxl_tier_dict)
  with Inr show ?thesis by (intro exI [of _ y] conjI)
qed

lemma xxs_tier_total:
  assumes "typed_xs xs"
  shows "\<exists>xo. xxs_tier (PDict xs) = Inr xo"
proof (cases "xs = []")
  case True
  then show ?thesis by (simp add: xxs_tier_empty)
next
  case False
  from xxs_tier_typed [OF False assms] obtain r
    where "xxs_tier (PDict xs) = Inr (Some (PDict r)) \<and> xxs_rules xs r
           \<and> optimizer_args_rule xs r" ..
  then show ?thesis by (intro exI [of _ "Some (PDict r)"]) simp
qed

lemma xxl_tier_total:
  assumes "typed_xl xl"
  shows "\<exists>yo. xxl_tier (PDict xl) = Inr yo"
proof (cases "xl = []")
  case True
  then show ?thesis by (simp add: xxl_tier_empty)
next
  case False
  from xxl_tier_typed [OF False assms] obtain r
    where "xxl_tier (PDict xl) = Inr (Some (PDict r)) \<and> xxl_rules xl r \<and> xxl_lr_rules xl r" ..
  then show ?thesis by (intro exI [of _ "Some (PDict r)"]) simp
qed

lemma dict_get_Some: "map_of T k = Some v \<Longrightarrow> dict_get T k x = v"
  by (simp add: dict_get_def)

lemma dict_get_None: "\<not> has_key T k \<Longrightarrow> dict_get T k x = x"
  by (simp add: dict_get_def has_key_def)

lemma has_key_Some: "map_of T k = Some v \<Longrightarrow> has_key T k"
  by (simp add: has_key_def)

text \<open>The xl tier absent or empty: no xxl tier is built, and nothing is raised.\<close>

lemma xxl_tier_skip:
  assumes "\<not> has_key T ''xl'' \<or> map_of T ''xl'' = Some (PDict [])"
  shows "xxl_tier (dict_get T ''xl'' (PDict [])) = Inr None"
proof -
  from assms have "dict_get T ''xl'' (PDict []) = PDict []"
    by (cases "has_key T ''xl''") (simp_all add: dict_get_None dict_get_Some)
  then show ?thesis by (simp add: xxl_tier_empty)
qed

lemma augment_total:
  assumes "\<exists>xo. xxs_tier (dict_get T ''xs'' (PDict [])) = Inr xo"
    and "\<exists>yo. xxl_tier (dict_get T ''xl'' (PDict [])) = Inr yo"
  shows "\<exists>T'. augment T = Inr T'"
proof (cases "has_key T ''xs'' \<and> \<not> (has_key T ''xxs'' \<and> has_key T ''xxl'')")
  case False
  then have "augment T = Inr T"
    by (cases "has_key T ''xs''") (simp_all add: augment_no_xs augment_both)
  then show ?thesis by (rule exI)
next
  case True
  from assms obtain xo yo where "xxs_tier (dict_get T ''xs'' (PDict [])) = Inr xo"
    "xxl_tier (dict_get T ''xl'' (PDict [])) = Inr yo"
    by (elim exE)
  with True have "augment T = Inr (put_xxl yo (put_xxs xo T))"
    by (simp add: augment_run)
  then show ?thesis by (rule exI)
qed

lemma no_xxl_added:
  assumes d: "distinct (map fst T)" and a: "augment T = Inr T'"
    and skip: "\<not> has_key T ''xl'' \<or> map_of T ''xl'' = Some (PDict [])"
  shows "has_key T' ''xxl'' = has_key T ''xxl''"
proof (cases "has_key T ''xs'' \<and> \<not> (has_key T ''xxs'' \<and> has_key T ''xxl'')")
  case False
  then have "augment T = Inr T"
    by (cases "has_key T ''xs''") (simp_all add: augment_no_xs augment_both)
  with a show ?thesis by simp
next
  case True
  then have xs: "has_key T ''xs''" and nb: "\<not> (has_key T ''xxs'' \<and> has_key T ''xxl'')"
    by simp_all
  from augment_run_Inr [OF xs nb a] obtain xo yo
    where r: "xxs_tier (dict_get T ''xs'' (PDict [])) = Inr xo
           \<and> xxl_tier (dict_get T ''xl'' (PDict [])) = Inr yo
           \<and> T' = put_xxl yo (put_xxs xo T)"
    by (elim exE)
  with xxl_tier_skip [OF skip] have "T' = put_xxs xo T"
    by (simp add: put_xxl_def)
  then show ?thesis
    by (simp add: has_key_put_xxs_other [OF d])
qed

text \<open>
  Claim C9, as stated, fails: a table with no \<^verbatim>\<open>xs\<close> key that already holds an \<^verbatim>\<open>xxs\<close>
  key is returned as it is, so the result contains an \<^verbatim>\<open>xxs\<close> key.
\<close>

theorem skip_on_absence_counterexample:
  "\<not> has_key [(''xxs'', PDict [(''max_train_epochs'', PInt 45)])] ''xs''
   \<and> augment [(''xxs'', PDict [(''max_train_epochs'', PInt 45)])]
       = Inr [(''xxs'', PDict [(''max_train_epochs'', PInt 45)])]
   \<and> has_key [(''xxs'', PDict [(''max_train_epochs'', PInt 45)])] ''xxs''"
  by code_simp

text \<open>
  Claim C9, amended. A table with no \<^verbatim>\<open>xs\<close> key is returned as it is, with no
  exception: no \<^verbatim>\<open>xxs\<close> key is added. On a table with no \<^verbatim>\<open>xl\<close> key, or with an empty
  \<^verbatim>\<open>xl\<close> tier, no \<^verbatim>\<open>xxl\<close> key is added: the result holds one exactly when the table
  did. Skipping raises nothing: such a table with a well-typed \<^verbatim>\<open>xs\<close> tier is augmented
  without an exception.
\<close>

theorem skip_on_absence:
  "(\<forall>T. \<not> has_key T ''xs'' \<longrightarrow> augment T = Inr T)
   \<and> (\<forall>T T'. distinct (map fst T) \<and> augment T = Inr T'
         \<and> (\<not> has_key T ''xl'' \<or> map_of T ''xl'' = Some (PDict [])) \<longrightarrow>
       has_key T' ''xxl'' = has_key T ''xxl'')
   \<and> (\<forall>T xs. map_of T ''xs'' = Some (PDict xs) \<and> typed_xs xs
         \<and> (\<not> has_key T ''xl'' \<or> map_of T ''xl'' = Some (PDict [])) \<longrightarrow>
       (\<exists>T'. augment T = Inr T'))"
proof (intro conjI allI impI; (elim conjE)?)
  fix T :: pydict
  assume "\<not> has_key T ''xs''"
  then show "augment T = Inr T" by (rule augment_no_xs)
next
  fix T T' :: pydict
  assume "distinct (map fst T)" "augment T = Inr T'"
    "\<not> has_key T ''xl'' \<or> map_of T ''xl'' = Some (PDict [])"
  then show "has_key T' ''xxl'' = has_key T ''xxl''" by (rule no_xxl_added)
next
  fix T xs :: pydict
  assume xs: "map_of T ''xs'' = Some (PDict xs)" and ty: "typed_xs xs"
    and skip: "\<not> has_key T ''xl'' \<or> map_of T ''xl'' = Some (PDict [])"
  have "\<exists>xo. xxs_tier (dict_get T ''xs'' (PDict [])) = Inr xo"
    using xxs_tier_total [OF ty] by (simp add: dict_get_Some [OF xs])
  moreover have "\<exists>yo. xxl_tier (dict_get T ''xl'' (PDict [])) = Inr yo"
    using xxl_tier_skip [OF skip] by (intro exI)
  ultimately show "\<exists>T'. augment T = Inr T'" by (rule augment_total)
qed

theorem skip_on_absence_witness:
  "distinct (map fst [(''xs'', PDict [(''a'', PInt 1)]), (''xl'', PDict [])])
   \<and> map_of [(''xs'', PDict [(''a'', PInt 1)]), (''xl'', PDict [])] ''xl'' = Some (PDict [])
   \<and> augment [(''xs'', PDict [(''a'', PInt 1)]), (''xl'', PDict [])]
       = Inr [(''xxs'', PDict [(''a'', PInt 1), (''max_train_epochs'', PInt 45),
                (''train_batch_size'', PInt 2), (''gradient_accumulation_steps'', PInt 4),
                (''noise_offset'', PFloat (fl_lit 15 1000)),
                (''lr_scheduler'', PStr ''constant_with_warmup''),
                (''max_data_loader_n_workers'', PInt 2)]),
              (''xs'', PDict [(''a'', PInt 1)]), (''xl'', PDict [])]
   \<and> \<not> has_key [(''xxs'', PDict [(''a'', PInt 1), (''max_train_epochs'', PInt 45),
                (''train_batch_size'', PInt 2), (''gradient_accumulation_steps'', PInt 4),
                (''noise_offset'', PFloat (fl_lit 15 1000)),
                (''lr_scheduler'', PStr ''constant_with_warmup''),
                (''max_data_loader_n_workers'', PInt 2)]),
              (''xs'', PDict [(''a'', PInt 1)]), (''xl'', PDict [])] ''xxl''"
proof -
  define T where "T = [(''xs'', PDict [(''a'', PInt 1)]), (''xl'', PDict [])]"
  define T' where "T' = [(''xxs'', PDict [(''a'', PInt 1), (''max_train_epochs'', PInt 45),
                (''train_batch_size'', PInt 2), (''gradient_accumulation_steps'', PInt 4),
                (''noise_offset'', PFloat (fl_lit 15 1000)),
                (''lr_scheduler'', PStr ''constant_with_warmup''),
                (''max_data_loader_n_workers'', PInt 2)]),
              (''xs'', PDict [(''a'', PInt 1)]), (''xl'', PDict [])]"
  have d: "distinct (map fst T)" and e: "map_of T ''xl'' = Some (PDict [])"
    unfolding T_def by simp_all
  have a: "augment T = Inr T'"
    unfolding T_def T'_def by code_simp
  from d a e have h: "distinct (map fst T) \<and> augment T = Inr T'
         \<and> (\<not> has_key T ''xl'' \<or> map_of T ''xl'' = Some (PDict []))"
    by (intro conjI disjI2)
  from skip_on_absence [THEN conjunct2, THEN conjunct1, THEN spec, THEN spec, THEN mp, OF h]
  have "has_key T' ''xxl'' = has_key T ''xxl''" .
  then have "\<not> has_key T' ''xxl''"
    by (simp add: T_def has_key_def)
  with d e a show ?thesis
    unfolding T_def T'_def by (intro conjI)
qed

subsection \<open>Which tiers are derived\<close>

lemma augment_run_Inr':
  assumes "has_key T ''xs''" "\<not> (has_key T ''xxs'' \<and> has_key T ''xxl'')"
    and "augment T = Inr T'"
  obtains xo yo where "xxs_tier (dict_get T ''xs'' (PDict [])) = Inr xo"
    and "xxl_tier (dict_get T ''xl'' (PDict [])) = Inr yo"
    and "T' = put_xxl yo (put_xxs xo T)"
proof -
  from augment_run_Inr [OF assms] obtain xo yo
    where r: "xxs_tier (dict_get T ''xs'' (PDict [])) = Inr xo
           \<and> xxl_tier (dict_get T ''xl'' (PDict [])) = Inr yo
           \<and> T' = put_xxl yo (put_xxs xo T)"
    by (elim exE)
  show thesis
    by (rule that [of xo yo]) (simp_all add: r)
qed

lemma xxl_derived:
  assumes a: "augment T = Inr T'" and xs: "has_key T ''xs''"
    and nb: "\<not> (has_key T ''xxs'' \<and> has_key T ''xxl'')"
    and xl: "map_of T ''xl'' = Some (PDict xl)" and ne: "xl \<noteq> []"
  shows "\<exists>y. derive_xxl xl = Inr y \<and> map_of T' ''xxl'' = Some (PDict y)"
proof -
  from xs nb a obtain xo yo where yo: "xxl_tier (dict_get T ''xl'' (PDict [])) = Inr yo"
    and T': "T' = put_xxl yo (put_xxs xo T)"
    by (rule augment_run_Inr')
  from yo have "xxl_tier (PDict xl) = Inr yo"
    by (simp add: dict_get_Some [OF xl])
  from xxl_tier_dict_Inr [OF ne this] obtain y
    where y: "derive_xxl xl = Inr y \<and> yo = Some (PDict y)" ..
  then have "map_of T' ''xxl'' = Some (PDict y)"
    by (simp add: T' map_of_put_xxl_xxl)
  with y show ?thesis
    by (intro exI [of _ y] conjI) simp_all
qed

lemma xxs_derived:
  assumes d: "distinct (map fst T)" and a: "augment T = Inr T'"
    and xs: "map_of T ''xs'' = Some (PDict xs)" and ne: "xs \<noteq> []"
    and n: "\<not> has_key T ''xxs''"
  shows "\<exists>x. derive_xxs xs = Inr x \<and> map_of T' ''xxs'' = Some (PDict x)"
proof -
  from n have nb: "\<not> (has_key T ''xxs'' \<and> has_key T ''xxl'')"
    by simp
  from has_key_Some [OF xs] nb a obtain xo yo
    where xo: "xxs_tier (dict_get T ''xs'' (PDict [])) = Inr xo"
    and T': "T' = put_xxl yo (put_xxs xo T)"
    by (rule augment_run_Inr')
  from xo have "xxs_tier (PDict xs) = Inr xo"
    by (simp add: dict_get_Some [OF xs])
  from xxs_tier_dict_Inr [OF ne this] obtain x
    where x: "derive_xxs xs = Inr x \<and> xo = Some (PDict x)" ..
  then have "T' = put_xxl yo ((''xxs'', PDict x) # T)"
    by (simp add: T' put_xxs_new [OF d n])
  then have "map_of T' ''xxs'' = Some (PDict x)"
    by (simp add: map_of_put_xxl_other)
  with x show ?thesis
    by (intro exI [of _ x] conjI) simp_all
qed

lemma no_xxs_added:
  assumes a: "augment T = Inr T'" and e: "map_of T ''xs'' = Some (PDict [])"
  shows "has_key T' ''xxs'' = has_key T ''xxs''"
proof (cases "has_key T ''xxs'' \<and> has_key T ''xxl''")
  case True
  then have "augment T = Inr T" by (simp add: augment_both)
  with a show ?thesis by simp
next
  case False
  from has_key_Some [OF e] False a obtain xo yo
    where xo: "xxs_tier (dict_get T ''xs'' (PDict [])) = Inr xo"
    and T': "T' = put_xxl yo (put_xxs xo T)"
    by (rule augment_run_Inr')
  from xo have "xo = None"
    by (simp add: dict_get_Some [OF e] xxs_tier_empty)
  then show ?thesis
    by (simp add: T' put_xxs_def has_key_def map_of_put_xxl_other)
qed

text \<open>
  Claim C1, as stated, fails: a table with a non-empty \<^verbatim>\<open>xl\<close> tier and no \<^verbatim>\<open>xs\<close> key is
  returned as it is, with no \<^verbatim>\<open>xxl\<close> tier. The guard on line 14 skips every table without
  an \<^verbatim>\<open>xs\<close> key.
\<close>

theorem xl_without_xs_counterexample:
  "\<not> has_key [(''xl'', PDict [(''max_train_epochs'', PInt 11)])] ''xs''
   \<and> augment [(''xl'', PDict [(''max_train_epochs'', PInt 11)])]
       = Inr [(''xl'', PDict [(''max_train_epochs'', PInt 11)])]
   \<and> \<not> has_key [(''xl'', PDict [(''max_train_epochs'', PInt 11)])] ''xxl''"
  by code_simp

text \<open>
  Claim C1, amended. A table with no \<^verbatim>\<open>xs\<close> key is returned as it is. On a table that
  has an \<^verbatim>\<open>xs\<close> key and not both of \<^verbatim>\<open>xxs\<close> and \<^verbatim>\<open>xxl\<close>, augment derives xxl from a
  non-empty \<^verbatim>\<open>xl\<close> tier whatever the \<^verbatim>\<open>xs\<close> tier holds, and derives xxs from a non-empty
  \<^verbatim>\<open>xs\<close> tier (the result holds it when no \<^verbatim>\<open>xxs\<close> key was there); an empty \<^verbatim>\<open>xs\<close> adds
  no \<^verbatim>\<open>xxs\<close> key, an absent or empty \<^verbatim>\<open>xl\<close> adds no \<^verbatim>\<open>xxl\<close> key. On well-typed tiers
  augment returns a table.
\<close>

theorem augment_derives_both:
  "(\<forall>T. \<not> has_key T ''xs'' \<longrightarrow> augment T = Inr T)
   \<and> (\<forall>T T'. distinct (map fst T) \<and> has_key T ''xs''
         \<and> \<not> (has_key T ''xxs'' \<and> has_key T ''xxl'') \<and> augment T = Inr T' \<longrightarrow>
       (\<forall>xl. map_of T ''xl'' = Some (PDict xl) \<and> xl \<noteq> [] \<longrightarrow>
          (\<exists>y. derive_xxl xl = Inr y \<and> map_of T' ''xxl'' = Some (PDict y)))
       \<and> (\<forall>xs. map_of T ''xs'' = Some (PDict xs) \<and> xs \<noteq> [] \<and> \<not> has_key T ''xxs'' \<longrightarrow>
          (\<exists>x. derive_xxs xs = Inr x \<and> map_of T' ''xxs'' = Some (PDict x)))
       \<and> (map_of T ''xs'' = Some (PDict []) \<longrightarrow> has_key T' ''xxs'' = has_key T ''xxs'')
       \<and> (\<not> has_key T ''xl'' \<or> map_of T ''xl'' = Some (PDict []) \<longrightarrow>
          has_key T' ''xxl'' = has_key T ''xxl''))
   \<and> (\<forall>T xs xl. map_of T ''xs'' = Some (PDict xs) \<and> typed_xs xs
         \<and> map_of T ''xl'' = Some (PDict xl) \<and> typed_xl xl \<longrightarrow>
       (\<exists>T'. augment T = Inr T'))"
proof (intro conjI allI impI; (elim conjE)?)
  fix T :: pydict
  assume "\<not> has_key T ''xs''"
  then show "augment T = Inr T" by (rule augment_no_xs)
next
  fix T T' xl :: pydict
  assume "augment T = Inr T'" "has_key T ''xs''"
    "\<not> (has_key T ''xxs'' \<and> has_key T ''xxl'')"
    "map_of T ''xl'' = Some (PDict xl)" "xl \<noteq> []"
  then show "\<exists>y. derive_xxl xl = Inr y \<and> map_of T' ''xxl'' = Some (PDict y)"
    by (rule xxl_derived)
next
  fix T T' xs :: pydict
  assume "distinct (map fst T)" "augment T = Inr T'"
    "map_of T ''xs'' = Some (PDict xs)" "xs \<noteq> []" "\<not> has_key T ''xxs''"
  then show "\<exists>x. derive_xxs xs = Inr x \<and> map_of T' ''xxs'' = Some (PDict x)"
    by (rule xxs_derived)
next
  fix T T' :: pydict
  assume "augment T = Inr T'" "map_of T ''xs'' = Some (PDict [])"
  then show "has_key T' ''xxs'' = has_key T ''xxs''"
    by (rule no_xxs_added)
next
  fix T T' :: pydict
  assume "distinct (map fst T)" "augment T = Inr T'"
    "\<not> has_key T ''xl'' \<or> map_of T ''xl'' = Some (PDict [])"
  then show "has_key T' ''xxl'' = has_key T ''xxl''"
    by (rule no_xxl_added)
next
  fix T xs xl :: pydict
  assume xs: "map_of T ''xs'' = Some (PDict xs)" and tx: "typed_xs xs"
    and xl: "map_of T ''xl'' = Some (PDict xl)" and tl: "typed_xl xl"
  have "\<exists>xo. xxs_tier (dict_get T ''xs'' (PDict [])) = Inr xo"
    using xxs_tier_total [OF tx] by (simp add: dict_get_Some [OF xs])
  moreover have "\<exists>yo. xxl_tier (dict_get T ''xl'' (PDict [])) = Inr yo"
    using xxl_tier_total [OF tl] by (simp add: dict_get_Some [OF xl])
  ultimately show "\<exists>T'. augment T = Inr T'" by (rule augment_total)
qed

theorem augment_derives_both_witness:
  "distinct (map fst [(''xs'', PDict []), (''xl'', PDict [(''c'', PInt 3)])])
   \<and> has_key [(''xs'', PDict []), (''xl'', PDict [(''c'', PInt 3)])] ''xs''
   \<and> \<not> (has_key [(''xs'', PDict []), (''xl'', PDict [(''c'', PInt 3)])] ''xxs''
        \<and> has_key [(''xs'', PDict []), (''xl'', PDict [(''c'', PInt 3)])] ''xxl'')
   \<and> (\<exists>T'. augment [(''xs'', PDict []), (''xl'', PDict [(''c'', PInt 3)])] = Inr T'
          \<and> (\<exists>y. derive_xxl [(''c'', PInt 3)] = Inr y \<and> map_of T' ''xxl'' = Some (PDict y))
          \<and> \<not> has_key T' ''xxs'')"
proof -
  define T where "T = [(''xs'', PDict []), (''xl'', PDict [(''c'', PInt 3)])]"
  define T' where "T' = T @ [(''xxl'', PDict [(''c'', PInt 3), (''max_train_epochs'', PInt 8),
                (''train_batch_size'', PInt 16), (''gradient_accumulation_steps'', PInt 1),
                (''noise_offset'', PFloat (fl_lit 45 1000)),
                (''lr_scheduler'', PStr ''cosine''),
                (''lr_warmup_steps'', PInt 150),
                (''max_data_loader_n_workers'', PInt 8)])]"
  have d: "distinct (map fst T)" and k: "has_key T ''xs''"
    and nb: "\<not> (has_key T ''xxs'' \<and> has_key T ''xxl'')"
    and xl: "map_of T ''xl'' = Some (PDict [(''c'', PInt 3)]) \<and> [(''c'', PInt 3)] \<noteq> []"
    and xs: "map_of T ''xs'' = Some (PDict [])"
    and n: "\<not> has_key T ''xxs''"
    unfolding T_def by (simp_all add: has_key_def)
  have a: "augment T = Inr T'"
    unfolding T_def T'_def by code_simp
  from d k nb a have h: "distinct (map fst T) \<and> has_key T ''xs''
         \<and> \<not> (has_key T ''xxs'' \<and> has_key T ''xxl'') \<and> augment T = Inr T'"
    by (intro conjI)
  note both = augment_derives_both [THEN conjunct2, THEN conjunct1, THEN spec, THEN spec,
      THEN mp, OF h]
  from both [THEN conjunct1, THEN spec, THEN mp, OF xl]
  have y: "\<exists>y. derive_xxl [(''c'', PInt 3)] = Inr y \<and> map_of T' ''xxl'' = Some (PDict y)" .
  from both [THEN conjunct2, THEN conjunct2, THEN conjunct1, THEN mp, OF xs] n
  have "\<not> has_key T' ''xxs''"
    by simp
  with a y have "augment T = Inr T'
          \<and> (\<exists>y. derive_xxl [(''c'', PInt 3)] = Inr y \<and> map_of T' ''xxl'' = Some (PDict y))
          \<and> \<not> has_key T' ''xxs''"
    by (intro conjI)
  then have "\<exists>T'. augment T = Inr T'
          \<and> (\<exists>y. derive_xxl [(''c'', PInt 3)] = Inr y \<and> map_of T' ''xxl'' = Some (PDict y))
          \<and> \<not> has_key T' ''xxs''"
    by (rule exI [of _ T'])
  with d k nb show ?thesis
    unfolding T_def by (intro conjI)
qed

subsection \<open>One of the two keys already there\<close>

lemma xxs_kept:
  assumes d: "distinct (map fst T)" and a: "augment T = Inr T'"
    and k: "has_key T ''xxs''"
  shows "map_of T' ''xxs'' = map_of T ''xxs''"
proof (cases "has_key T ''xs'' \<and> \<not> (has_key T ''xxs'' \<and> has_key T ''xxl'')")
  case False
  then have "augment T = Inr T"
    by (cases "has_key T ''xs''") (simp_all add: augment_no_xs augment_both)
  with a show ?thesis by simp
next
  case True
  then have xs: "has_key T ''xs''" and nb: "\<not> (has_key T ''xxs'' \<and> has_key T ''xxl'')"
    by simp_all
  from xs nb a obtain xo yo where T': "T' = put_xxl yo (put_xxs xo T)"
    by (rule augment_run_Inr')
  from k obtain v where v: "map_of T ''xxs'' = Some v"
    by (cases "map_of T ''xxs''") (simp_all add: has_key_def)
  have "map_of (put_xxs xo T) ''xxs'' = Some v"
  proof (cases xo)
    case None
    then show ?thesis by (simp add: put_xxs_def v)
  next
    case (Some x)
    then show ?thesis by (simp add: map_of_put_xxs_xxs [OF d] dict_get_Some [OF v])
  qed
  then show ?thesis
    by (simp add: T' v map_of_put_xxl_other)
qed

lemma xxs_first:
  assumes d: "distinct (map fst T)" and a: "augment T = Inr T'"
    and nl: "\<not> has_key T ''xxl''"
    and xs: "map_of T ''xs'' = Some (PDict xs)" and ne: "xs \<noteq> []"
    and v: "map_of T ''xxs'' = Some v"
  shows "(\<exists>x. derive_xxs xs = Inr x) \<and> hd T' = (''xxs'', v)"
proof -
  from nl have nb: "\<not> (has_key T ''xxs'' \<and> has_key T ''xxl'')"
    by simp
  from has_key_Some [OF xs] nb a obtain xo yo
    where xo: "xxs_tier (dict_get T ''xs'' (PDict [])) = Inr xo"
    and T': "T' = put_xxl yo (put_xxs xo T)"
    by (rule augment_run_Inr')
  from xo have "xxs_tier (PDict xs) = Inr xo"
    by (simp add: dict_get_Some [OF xs])
  from xxs_tier_dict_Inr [OF ne this] obtain x
    where x: "derive_xxs xs = Inr x \<and> xo = Some (PDict x)" ..
  then have "T' = put_xxl yo ((''xxs'', v) # filter (\<lambda>kv. fst kv \<noteq> ''xxs'') T)"
    by (simp add: T' put_xxs_Some [OF d] dict_get_Some [OF v])
  then have "hd T' = (''xxs'', v)"
    by (simp add: put_xxl_Cons_xxs)
  moreover from x have "\<exists>x. derive_xxs xs = Inr x"
    by (intro exI [of _ x]) simp
  ultimately show ?thesis
    by (intro conjI)
qed

lemma augment_xxs_error:
  assumes "has_key T ''xs''" "\<not> (has_key T ''xxs'' \<and> has_key T ''xxl'')"
    and "xxs_tier (dict_get T ''xs'' (PDict [])) = Inl e"
  shows "augment T = Inl e"
  using assms by (simp add: augment_run)

text \<open>
  Claim C10, as stated, fails. A table that holds \<^verbatim>\<open>xxl\<close> and not \<^verbatim>\<open>xxs\<close> but has no
  \<^verbatim>\<open>xs\<close> key is returned as it is: the guard on line 14 skips it and nothing is derived.
  On a table that holds \<^verbatim>\<open>xxs\<close> and not \<^verbatim>\<open>xxl\<close> and whose \<^verbatim>\<open>xs\<close> tier is empty, nothing
  is put in front (line 24), and the \<^verbatim>\<open>xxs\<close> item stays where it was, here second.
\<close>

theorem partial_presence_counterexample:
  "\<not> has_key [(''xl'', PDict [(''c'', PInt 3)]), (''xxl'', PStr ''old'')] ''xxs''
   \<and> augment [(''xl'', PDict [(''c'', PInt 3)]), (''xxl'', PStr ''old'')]
       = Inr [(''xl'', PDict [(''c'', PInt 3)]), (''xxl'', PStr ''old'')]
   \<and> \<not> has_key [(''xs'', PDict []), (''xxs'', PStr ''old''),
                  (''xl'', PDict [(''c'', PInt 3)])] ''xxl''
   \<and> augment [(''xs'', PDict []), (''xxs'', PStr ''old''), (''xl'', PDict [(''c'', PInt 3)])]
       = Inr [(''xs'', PDict []), (''xxs'', PStr ''old''), (''xl'', PDict [(''c'', PInt 3)]),
              (''xxl'', PDict [(''c'', PInt 3), (''max_train_epochs'', PInt 8),
                (''train_batch_size'', PInt 16), (''gradient_accumulation_steps'', PInt 1),
                (''noise_offset'', PFloat (fl_lit 45 1000)),
                (''lr_scheduler'', PStr ''cosine''),
                (''lr_warmup_steps'', PInt 150),
                (''max_data_loader_n_workers'', PInt 8)])]"
  by code_simp

text \<open>
  Claim C10, amended. On a table with an \<^verbatim>\<open>xs\<close> key and exactly one of the keys \<^verbatim>\<open>xxs\<close>,
  \<^verbatim>\<open>xxl\<close> the derivation runs. With \<^verbatim>\<open>xxl\<close> there and a non-empty \<^verbatim>\<open>xl\<close>, the result
  holds the newly derived xxl under \<^verbatim>\<open>xxl\<close>. With \<^verbatim>\<open>xxs\<close> there, the result holds the value
  the table had under \<^verbatim>\<open>xxs\<close>; when \<^verbatim>\<open>xs\<close> is non-empty the xxs tier is derived all the
  same and dropped, and the old item is the first of the result. An exception of the xxs
  derivation is raised by augment, also when its result would be dropped.
\<close>

theorem partial_presence:
  "(\<forall>T T'. distinct (map fst T) \<and> has_key T ''xs'' \<and> augment T = Inr T' \<longrightarrow>
      (has_key T ''xxl'' \<and> \<not> has_key T ''xxs'' \<longrightarrow>
         (\<forall>xl. map_of T ''xl'' = Some (PDict xl) \<and> xl \<noteq> [] \<longrightarrow>
            (\<exists>y. derive_xxl xl = Inr y \<and> map_of T' ''xxl'' = Some (PDict y))))
      \<and> (has_key T ''xxs'' \<and> \<not> has_key T ''xxl'' \<longrightarrow>
           map_of T' ''xxs'' = map_of T ''xxs''
           \<and> (\<forall>xs v. map_of T ''xs'' = Some (PDict xs) \<and> xs \<noteq> []
                  \<and> map_of T ''xxs'' = Some v \<longrightarrow>
                (\<exists>x. derive_xxs xs = Inr x) \<and> hd T' = (''xxs'', v))))
   \<and> (\<forall>T e. has_key T ''xs'' \<and> \<not> (has_key T ''xxs'' \<and> has_key T ''xxl'')
         \<and> xxs_tier (dict_get T ''xs'' (PDict [])) = Inl e \<longrightarrow>
       augment T = Inl e)"
proof (intro conjI allI impI; (elim conjE)?)
  fix T T' xl :: pydict
  assume a: "augment T = Inr T'" and xs: "has_key T ''xs''"
    and n: "\<not> has_key T ''xxs''"
    and xl: "map_of T ''xl'' = Some (PDict xl)" "xl \<noteq> []"
  from n have "\<not> (has_key T ''xxs'' \<and> has_key T ''xxl'')"
    by simp
  from a xs this xl show "\<exists>y. derive_xxl xl = Inr y \<and> map_of T' ''xxl'' = Some (PDict y)"
    by (rule xxl_derived)
next
  fix T T' :: pydict
  assume "distinct (map fst T)" "augment T = Inr T'" "has_key T ''xxs''"
  then show "map_of T' ''xxs'' = map_of T ''xxs''"
    by (rule xxs_kept)
next
  fix T T' xs :: pydict and v
  assume "distinct (map fst T)" "augment T = Inr T'" "\<not> has_key T ''xxl''"
    "map_of T ''xs'' = Some (PDict xs)" "xs \<noteq> []" "map_of T ''xxs'' = Some v"
  then have r: "(\<exists>x. derive_xxs xs = Inr x) \<and> hd T' = (''xxs'', v)"
    by (rule xxs_first)
  from r show "\<exists>x. derive_xxs xs = Inr x" by (rule conjunct1)
  from r show "hd T' = (''xxs'', v)" by (rule conjunct2)
next
  fix T :: pydict and e
  assume "has_key T ''xs''" "\<not> (has_key T ''xxs'' \<and> has_key T ''xxl'')"
    "xxs_tier (dict_get T ''xs'' (PDict [])) = Inl e"
  then show "augment T = Inl e"
    by (rule augment_xxs_error)
qed

theorem partial_presence_witness:
  "distinct (map fst [(''xs'', PDict [(''a'', PInt 1)]), (''xxs'', PStr ''old''),
                      (''xl'', PDict [(''c'', PInt 3)])])
   \<and> has_key [(''xs'', PDict [(''a'', PInt 1)]), (''xxs'', PStr ''old''),
               (''xl'', PDict [(''c'', PInt 3)])] ''xs''
   \<and> (\<exists>T'. augment [(''xs'', PDict [(''a'', PInt 1)]), (''xxs'', PStr ''old''),
                     (''xl'', PDict [(''c'', PInt 3)])] = Inr T'
          \<and> hd T' = (''xxs'', PStr ''old'')
          \<and> map fst T' = [''xxs'', ''xs'', ''xl'', ''xxl''])"
proof -
  define T where "T = [(''xs'', PDict [(''a'', PInt 1)]), (''xxs'', PStr ''old''),
                      (''xl'', PDict [(''c'', PInt 3)])]"
  define T' where "T' = [(''xxs'', PStr ''old''), (''xs'', PDict [(''a'', PInt 1)]),
        (''xl'', PDict [(''c'', PInt 3)]),
        (''xxl'', PDict [(''c'', PInt 3), (''max_train_epochs'', PInt 8),
                (''train_batch_size'', PInt 16), (''gradient_accumulation_steps'', PInt 1),
                (''noise_offset'', PFloat (fl_lit 45 1000)),
                (''lr_scheduler'', PStr ''cosine''),
                (''lr_warmup_steps'', PInt 150),
                (''max_data_loader_n_workers'', PInt 8)])]"
  have d: "distinct (map fst T)" and k: "has_key T ''xs''"
    and p: "has_key T ''xxs'' \<and> \<not> has_key T ''xxl''"
    and q: "map_of T ''xs'' = Some (PDict [(''a'', PInt 1)]) \<and> [(''a'', PInt 1)] \<noteq> []
                  \<and> map_of T ''xxs'' = Some (PStr ''old'')"
    unfolding T_def by (simp_all add: has_key_def)
  have a: "augment T = Inr T'"
    unfolding T_def T'_def by code_simp
  from d k a have h: "distinct (map fst T) \<and> has_key T ''xs'' \<and> augment T = Inr T'"
    by (intro conjI)
  note pp = partial_presence [THEN conjunct1, THEN spec, THEN spec, THEN mp, OF h]
  from pp [THEN conjunct2, THEN mp, OF p, THEN conjunct2, THEN spec, THEN spec, THEN mp, OF q]
  have "hd T' = (''xxs'', PStr ''old'')"
    by (rule conjunct2)
  moreover have "map fst T' = [''xxs'', ''xs'', ''xl'', ''xxl'']"
    by (simp add: T'_def)
  ultimately have "augment T = Inr T' \<and> hd T' = (''xxs'', PStr ''old'')
          \<and> map fst T' = [''xxs'', ''xs'', ''xl'', ''xxl'']"
    using a by (intro conjI)
  then have "\<exists>T'. augment T = Inr T' \<and> hd T' = (''xxs'', PStr ''old'')
          \<and> map fst T' = [''xxs'', ''xs'', ''xl'', ''xxl'']"
    by (rule exI [of _ T'])
  with d k show ?thesis
    unfolding T_def by (intro conjI)
qed

section \<open>The registry in the store\<close>

subsection \<open>What a call may change\<close>

lemma same_tiers_refl: "same_tiers T T"
  by (simp add: same_tiers_def)

lemma same_tiers_trans: "same_tiers A B \<Longrightarrow> same_tiers B C \<Longrightarrow> same_tiers A C"
  by (simp add: same_tiers_def)

lemma same_tiers_but_xxl:
  "(\<And>k. k \<noteq> ''xxl'' \<Longrightarrow> map_of T' k = map_of T k) \<Longrightarrow> same_tiers T T'"
  by (simp add: same_tiers_def)

lemma same_tiers_put:
  "distinct (map fst T) \<Longrightarrow> same_tiers T (put_xxl yo (put_xxs xo T))"
  by (simp add: same_tiers_def map_of_put_xxl_other map_of_put_xxs_other)

lemma frame_refl: "frame h h"
  by (auto simp add: frame_def same_tiers_refl)

lemma frame_trans:
  assumes a: "frame h h1" and b: "frame h1 h2"
  shows "frame h h2"
proof -
  have keys: "map fst (data_items h2) = map fst (data_items h)"
    using a b by (simp add: frame_def)
  have len: "length (objs h) \<le> length (objs h2)"
    using a b by (simp add: frame_def)
  have old: "map_of (objs h2 ! x) k = map_of (objs h ! x) k"
    if "x < length (objs h) \<and> k \<noteq> ''xxl''" for x k
  proof -
    from that a have "x < length (objs h1)"
      by (simp add: frame_def)
    with that b have "map_of (objs h2 ! x) k = map_of (objs h1 ! x) k"
      by (simp add: frame_def)
    also from that a have "\<dots> = map_of (objs h ! x) k"
      by (simp add: frame_def)
    finally show ?thesis .
  qed
  have none: "(table_of h2 m = None) = (table_of h m = None)" for m
    using a b by (simp add: frame_def)
  have same: "same_tiers T T'" if "table_of h m = Some T \<and> table_of h2 m = Some T'" for m T T'
  proof -
    from that a have "table_of h1 m \<noteq> None"
      by (simp add: frame_def)
    then obtain T1 where T1: "table_of h1 m = Some T1"
      by (cases "table_of h1 m") simp_all
    from a that T1 have "same_tiers T T1"
      unfolding frame_def by (elim conjE allE [of _ m] allE [of _ T] allE [of _ T1]) simp
    moreover from b that T1 have "same_tiers T1 T'"
      unfolding frame_def by (elim conjE allE [of _ m] allE [of _ T1] allE [of _ T']) simp
    ultimately show ?thesis by (rule same_tiers_trans)
  qed
  show ?thesis
    unfolding frame_def using keys len old none same by (intro conjI allI impI)
qed

lemma data_items_set_data [simp]:
  "data_items (set_data k v h) = AList.update k v (data_items h)"
  by (simp add: set_data_def data_items_def)

lemma objs_set_data [simp]: "objs (set_data k v h) = objs h"
  by (simp add: set_data_def)

lemma data_items_set_obj_item [simp]: "data_items (set_obj_item a k v h) = data_items h"
  by (simp add: set_obj_item_def data_items_def)

lemma objs_set_obj_item [simp]:
  "objs (set_obj_item a k v h) = (objs h)[a := dict_set k v (objs h ! a)]"
  by (simp add: set_obj_item_def)

lemma table_of_Ref:
  "map_of (data_items h) m = Some (Ref a) \<Longrightarrow> a < length (objs h) \<Longrightarrow>
   table_of h m = Some (objs h ! a)"
  by (simp add: table_of_def obj_at_def)

lemma wf_store_valid:
  "wf_store h \<Longrightarrow> map_of (data_items h) m = Some (Ref a) \<Longrightarrow> a < length (objs h)"
  unfolding wf_store_def by blast

lemma table_of_Some:
  assumes "table_of h m = Some T"
  shows "\<exists>a. map_of (data_items h) m = Some (Ref a) \<and> a < length (objs h) \<and> T = objs h ! a"
  using assms
  by (auto simp add: table_of_def obj_at_def split: option.splits mval.splits if_splits)

lemma table_of_None:
  assumes "wf_store h"
  shows "(table_of h m = None) = (\<forall>a. map_of (data_items h) m \<noteq> Some (Ref a))"
proof (cases "map_of (data_items h) m")
  case None
  then show ?thesis by (simp add: table_of_def)
next
  case (Some v)
  show ?thesis
  proof (cases v)
    case (Ref a)
    with Some wf_store_valid [OF assms, of m a] show ?thesis
      by (simp add: table_of_def obj_at_def)
  next
    case (Val x)
    with Some show ?thesis by (simp add: table_of_def)
  qed
qed

lemma store_update_frame:
  assumes wf: "wf_store h" and k: "map_of (data_items h) k = Some (Ref a)"
    and D: "data_items h' = AList.update k (Ref a1) (data_items h)"
    and len: "length (objs h) \<le> length (objs h')"
    and old: "\<And>b j. b < length (objs h) \<Longrightarrow> j \<noteq> ''xxl'' \<Longrightarrow>
                map_of (objs h' ! b) j = map_of (objs h ! b) j"
    and dist: "\<forall>d \<in> set (objs h'). distinct (map fst d)"
    and a1: "a1 < length (objs h')" and st: "same_tiers (objs h ! a) (objs h' ! a1)"
  shows "wf_store h' \<and> frame h h'"
proof
  from wf k have a: "a < length (objs h)"
    by (rule wf_store_valid)
  have lookup: "map_of (data_items h') m = (if m = k then Some (Ref a1) else map_of (data_items h) m)"
    for m
    by (simp add: D update_conv')
  have valid: "b < length (objs h')" if "map_of (data_items h') m = Some (Ref b)" for m b
  proof (cases "m = k")
    case True
    with that a1 show ?thesis by (simp add: lookup)
  next
    case False
    with that have "map_of (data_items h) m = Some (Ref b)" by (simp add: lookup)
    with wf have "b < length (objs h)" by (rule wf_store_valid)
    with len show ?thesis by simp
  qed
  from wf have nv: "map_of (data_items h) m \<noteq> Some (Val (PDict d))" for m d
    unfolding wf_store_def by blast
  have noval: "map_of (data_items h') m \<noteq> Some (Val (PDict d))" for m d
    using nv [of m d] by (simp add: lookup)
  from wf have "distinct (map fst (data_items h))"
    unfolding wf_store_def by blast
  then have "distinct (map fst (data_items h'))"
    by (simp add: D distinct_update)
  with valid noval dist show w': "wf_store h'"
    unfolding wf_store_def by (intro conjI allI impI)
  from k have "map_of (data_items h) k \<noteq> None"
    by simp
  then have kin: "k \<in> set (map fst (data_items h))"
    by (simp add: map_of_eq_None_iff)
  have keys: "map fst (data_items h') = map fst (data_items h)"
    using kin by (simp add: D update_keys)
  have tk: "table_of h k = Some (objs h ! a)"
    using k a by (rule table_of_Ref)
  have tk': "table_of h' k = Some (objs h' ! a1)"
    using a1 by (intro table_of_Ref) (simp add: lookup)
  have same_old: "same_tiers (objs h ! b) (objs h' ! b)" if "b < length (objs h)" for b
    by (rule same_tiers_but_xxl) (simp add: old that)
  have other: "table_of h' m = (case map_of (data_items h) m of
        Some (Ref b) \<Rightarrow> Some (objs h' ! b) | _ \<Rightarrow> None)"
    if "m \<noteq> k" for m
  proof (cases "map_of (data_items h) m")
    case None
    with that show ?thesis by (simp add: table_of_def lookup)
  next
    case (Some v)
    show ?thesis
    proof (cases v)
      case (Ref b)
      with Some wf_store_valid [OF wf, of m b] len that show ?thesis
        by (simp add: table_of_def obj_at_def lookup)
    next
      case (Val x)
      with Some that show ?thesis by (simp add: table_of_def lookup)
    qed
  qed
  have none: "(table_of h' m = None) = (table_of h m = None)" for m
  proof (cases "m = k")
    case True
    then show ?thesis by (simp add: tk tk')
  next
    case False
    then show ?thesis
      by (simp add: other table_of_None [OF wf] split: option.splits mval.splits)
  qed
  have same: "same_tiers T T'" if "table_of h m = Some T \<and> table_of h' m = Some T'" for m T T'
  proof (cases "m = k")
    case True
    with that st show ?thesis by (simp add: tk tk')
  next
    case False
    from that have T: "table_of h m = Some T" and T': "table_of h' m = Some T'"
      by simp_all
    from table_of_Some [OF T] obtain b
      where b: "map_of (data_items h) m = Some (Ref b) \<and> b < length (objs h) \<and> T = objs h ! b"
      ..
    with T' False have "T' = objs h' ! b"
      by (simp add: other)
    with b same_old [of b] show ?thesis by simp
  qed
  show "frame h h'"
    unfolding frame_def using keys len old none same by (intro conjI allI impI) simp_all
qed

lemma wf_store_distinct:
  "wf_store h \<Longrightarrow> a < length (objs h) \<Longrightarrow> distinct (map fst (objs h ! a))"
  unfolding wf_store_def by (meson nth_mem)

lemma data_items_objs_update [simp]: "data_items (h\<lparr>objs := x\<rparr>) = data_items h"
  by (simp add: data_items_def)

lemma write_back_frame:
  assumes wf: "wf_store h" and k: "map_of (data_items h) k = Some (Ref a)"
  shows "wf_store (write_back k a (objs h ! a) xo yo h)
         \<and> frame h (write_back k a (objs h ! a) xo yo h)"
proof -
  define T where "T = objs h ! a"
  from wf k have a: "a < length (objs h)"
    by (rule wf_store_valid)
  from wf a have dT: "distinct (map fst T)"
    unfolding T_def by (rule wf_store_distinct)
  from wf have dall: "\<forall>d \<in> set (objs h). distinct (map fst d)"
    unfolding wf_store_def by blast
  show ?thesis
  proof (cases xo)
    case None
    define h' where "h' = write_back k a T None yo h"
    have D: "data_items h' = AList.update k (Ref a) (data_items h)"
      by (cases yo) (simp_all add: h'_def write_back_def)
    have O: "objs h' = (case yo of None \<Rightarrow> objs h | Some y \<Rightarrow> (objs h)[a := put_xxl yo T])"
      by (cases yo) (simp_all add: h'_def write_back_def put_xxl_def T_def)
    have len: "length (objs h) \<le> length (objs h')"
      by (cases yo) (simp_all add: O)
    have at_a: "objs h' ! a = put_xxl yo T"
      using a by (cases yo) (simp_all add: O put_xxl_def T_def)
    have at_b: "objs h' ! b = objs h ! b" if "b \<noteq> a" for b
      using that by (cases yo) (simp_all add: O)
    have old: "map_of (objs h' ! b) j = map_of (objs h ! b) j"
      if "b < length (objs h)" "j \<noteq> ''xxl''" for b j
    proof (cases "b = a")
      case True
      with that show ?thesis by (simp add: at_a map_of_put_xxl_other T_def)
    next
      case False
      then show ?thesis by (simp add: at_b)
    qed
    have dist: "\<forall>d \<in> set (objs h'). distinct (map fst d)"
    proof (cases yo)
      case None
      with dall show ?thesis by (simp add: O)
    next
      case (Some y)
      have "set ((objs h)[a := put_xxl yo T]) \<subseteq> insert (put_xxl yo T) (set (objs h))"
        by (rule set_update_subset_insert)
      moreover have "distinct (map fst (put_xxl yo T))"
        using dT by (rule distinct_put_xxl)
      ultimately show ?thesis
        using dall by (auto simp add: O Some)
    qed
    have a1: "a < length (objs h')"
      using a len by simp
    have st: "same_tiers (objs h ! a) (objs h' ! a)"
      unfolding at_a T_def [symmetric]
      by (rule same_tiers_but_xxl) (simp add: map_of_put_xxl_other)
    from store_update_frame [OF wf k D len old dist a1 st]
    show ?thesis
      by (simp add: h'_def None T_def)
  next
    case (Some x)
    define h' where "h' = write_back k a T (Some x) yo h"
    define P where "P = put_xxl yo (put_xxs (Some x) T)"
    have D: "data_items h' = AList.update k (Ref (length (objs h))) (data_items h)"
      by (cases yo) (simp_all add: h'_def write_back_def alloc_def)
    have O: "objs h' = objs h @ [P]"
      by (cases yo) (simp_all add: h'_def write_back_def alloc_def P_def put_xxl_def put_xxs_def)
    have len: "length (objs h) \<le> length (objs h')"
      by (simp add: O)
    have old: "map_of (objs h' ! b) j = map_of (objs h ! b) j"
      if "b < length (objs h)" "j \<noteq> ''xxl''" for b j
      using that by (simp add: O nth_append)
    have dP: "distinct (map fst P)"
      unfolding P_def using dT by (intro distinct_put_xxl distinct_put_xxs)
    have dist: "\<forall>d \<in> set (objs h'). distinct (map fst d)"
      using dall dP by (simp add: O)
    have a1: "length (objs h) < length (objs h')"
      by (simp add: O)
    have st: "same_tiers (objs h ! a) (objs h' ! length (objs h))"
      using dT by (simp add: O P_def T_def [symmetric] same_tiers_put)
    from store_update_frame [OF wf k D len old dist a1 st]
    show ?thesis
      by (simp add: h'_def Some T_def)
  qed
qed

lemma model_step_frame:
  assumes wf: "wf_store h" and s: "model_step k h = Inr h'"
  shows "wf_store h' \<and> frame h h'"
proof (cases "\<exists>a xo yo. map_of (data_items h) k = Some (Ref a)
    \<and> h' = write_back k a (objs h ! a) xo yo h")
  case True
  then obtain a xo yo where "map_of (data_items h) k = Some (Ref a)"
    and "h' = write_back k a (objs h ! a) xo yo h"
    by (elim exE conjE)
  with write_back_frame [OF wf, of k a xo yo] show ?thesis
    by simp
next
  case False
  have "h' = h"
  proof (rule ccontr)
    assume ne: "h' \<noteq> h"
    from s ne obtain a where ka: "map_of (data_items h) k = Some (Ref a)"
      by (cases "map_of (data_items h) k"; cases "the (map_of (data_items h) k)")
        (simp_all add: model_step_def)
    from s ne ka have at: "obj_at h a = Some (objs h ! a)"
      by (cases "a < length (objs h)") (simp_all add: model_step_def obj_at_def)
    define T where "T = objs h ! a"
    from s ne ka at have run: "and_then (xxs_tier (dict_get T ''xs'' (PDict []))) (\<lambda>xxs.
         and_then (xxl_tier (dict_get T ''xl'' (PDict []))) (\<lambda>xxl.
           Inr (write_back k a T xxs xxl h))) = Inr h'"
      by (cases "has_key T ''xs''"; cases "has_key T ''xxs''"; cases "has_key T ''xxl''")
        (simp_all add: model_step_def T_def Let_def)
    then obtain xo where xo: "xxs_tier (dict_get T ''xs'' (PDict [])) = Inr xo"
      by (cases "xxs_tier (dict_get T ''xs'' (PDict []))") simp_all
    with run obtain yo where yo: "xxl_tier (dict_get T ''xl'' (PDict [])) = Inr yo"
      by (cases "xxl_tier (dict_get T ''xl'' (PDict []))") simp_all
    from run xo yo have "h' = write_back k a T xo yo h"
      by simp
    with ka False show False
      unfolding T_def by blast
  qed
  then show ?thesis
    using wf by (simp add: frame_refl)
qed

lemma tiers_loop_frame:
  "wf_store h \<Longrightarrow> tiers_loop ks h = (e, h') \<Longrightarrow> wf_store h' \<and> frame h h'"
proof (induction ks arbitrary: h)
  case Nil
  then show ?case by (simp add: frame_refl)
next
  case (Cons k ks)
  show ?case
  proof (cases "model_step k h")
    case (Inl err)
    with Cons.prems show ?thesis by (simp add: frame_refl)
  next
    case (Inr h1)
    from model_step_frame [OF Cons.prems(1) Inr]
    have w1: "wf_store h1" and f1: "frame h h1"
      by simp_all
    from Cons.prems(2) Inr have "tiers_loop ks h1 = (e, h')"
      by simp
    from Cons.IH [OF w1 this] have "wf_store h'" and "frame h1 h'"
      by simp_all
    with f1 show ?thesis
      by (simp add: frame_trans [of h h1 h'])
  qed
qed

lemma add_enhanced_tiers_frame:
  assumes "wf_store h" "add_enhanced_tiers h = (e, h')"
  shows "wf_store h' \<and> frame h h'"
proof (cases "\<exists>items. data_item h = Some (DataDict items)")
  case True
  then obtain items where "data_item h = Some (DataDict items)" ..
  with assms(2) have "tiers_loop (map fst items) h = (e, h')"
    by (simp add: add_enhanced_tiers_def)
  with assms(1) show ?thesis by (rule tiers_loop_frame)
next
  case False
  with assms(2) have "h' = h"
    by (cases "data_item h"; cases "the (data_item h)")
      (simp_all add: add_enhanced_tiers_def)
  with assms(1) show ?thesis by (simp add: frame_refl)
qed

subsection \<open>The store and the value of a table\<close>

lemma write_back_table:
  assumes wf: "wf_store h" and k: "map_of (data_items h) k = Some (Ref a)"
  shows "table_of (write_back k a (objs h ! a) xo yo h) k
           = Some (put_xxl yo (put_xxs xo (objs h ! a)))"
proof -
  define T where "T = objs h ! a"
  from wf k have a: "a < length (objs h)"
    by (rule wf_store_valid)
  show ?thesis
  proof (cases xo)
    case None
    define h' where "h' = write_back k a T None yo h"
    have D: "map_of (data_items h') k = Some (Ref a)"
      by (cases yo) (simp_all add: h'_def write_back_def update_conv')
    have "objs h' = (case yo of None \<Rightarrow> objs h | Some y \<Rightarrow> (objs h)[a := put_xxl yo T])"
      by (cases yo) (simp_all add: h'_def write_back_def put_xxl_def T_def)
    then have "a < length (objs h') \<and> objs h' ! a = put_xxl yo T"
      using a by (cases yo) (simp_all add: put_xxl_def T_def)
    with table_of_Ref [OF D] show ?thesis
      by (simp add: h'_def None T_def put_xxs_def)
  next
    case (Some x)
    define h' where "h' = write_back k a T (Some x) yo h"
    have D: "map_of (data_items h') k = Some (Ref (length (objs h)))"
      by (cases yo) (simp_all add: h'_def write_back_def alloc_def update_conv')
    have "objs h' = objs h @ [put_xxl yo (put_xxs (Some x) T)]"
      by (cases yo) (simp_all add: h'_def write_back_def alloc_def put_xxl_def put_xxs_def)
    then have "length (objs h) < length (objs h')
        \<and> objs h' ! length (objs h) = put_xxl yo (put_xxs (Some x) T)"
      by simp
    with table_of_Ref [OF D] show ?thesis
      by (simp add: h'_def Some T_def)
  qed
qed

text \<open>One turn of the loop on the store does to the table of the model what \<open>augment\<close>
  does to its value.\<close>

lemma model_step_augment:
  assumes wf: "wf_store h" and k: "map_of (data_items h) k = Some (Ref a)"
  shows "case augment (objs h ! a) of
           Inl e \<Rightarrow> model_step k h = Inl e
         | Inr T' \<Rightarrow> (\<exists>h'. model_step k h = Inr h' \<and> table_of h' k = Some T')"
proof -
  define T where "T = objs h ! a"
  from wf k have a: "a < length (objs h)"
    by (rule wf_store_valid)
  have tk: "table_of h k = Some T"
    unfolding T_def using k a by (rule table_of_Ref)
  have at: "obj_at h a = Some T"
    using a by (simp add: obj_at_def T_def)
  show ?thesis
  proof (cases "has_key T ''xs'' \<and> \<not> (has_key T ''xxs'' \<and> has_key T ''xxl'')")
    case False
    then have "augment T = Inr T"
      by (cases "has_key T ''xs''") (simp_all add: augment_no_xs augment_both)
    moreover from False have "model_step k h = Inr h"
      by (cases "has_key T ''xs''") (simp_all add: model_step_def k at)
    ultimately show ?thesis
      using tk by (simp add: T_def [symmetric])
  next
    case True
    then have run: "augment T =
       and_then (xxs_tier (dict_get T ''xs'' (PDict []))) (\<lambda>xxs.
       and_then (xxl_tier (dict_get T ''xl'' (PDict []))) (\<lambda>xxl.
       Inr (put_xxl xxl (put_xxs xxs T))))"
      by (simp add: augment_run)
    from True have step: "model_step k h =
       and_then (xxs_tier (dict_get T ''xs'' (PDict []))) (\<lambda>xxs.
       and_then (xxl_tier (dict_get T ''xl'' (PDict []))) (\<lambda>xxl.
       Inr (write_back k a T xxs xxl h)))"
      by (cases "has_key T ''xxs''"; cases "has_key T ''xxl''")
        (simp_all add: model_step_def k at Let_def)
    show ?thesis
    proof (cases "xxs_tier (dict_get T ''xs'' (PDict []))")
      case (Inl e)
      then show ?thesis by (simp add: T_def [symmetric] run step)
    next
      case xo: (Inr xo)
      show ?thesis
      proof (cases "xxl_tier (dict_get T ''xl'' (PDict []))")
        case (Inl e)
        with xo show ?thesis by (simp add: T_def [symmetric] run step)
      next
        case yo: (Inr yo)
        have "table_of (write_back k a T xo yo h) k = Some (put_xxl yo (put_xxs xo T))"
          unfolding T_def by (rule write_back_table [OF wf k])
        with xo yo show ?thesis
          by (simp add: T_def [symmetric] run step)
      qed
    qed
  qed
qed

text \<open>
  Claim C2, as stated, fails: the call changes its input. With an empty \<^verbatim>\<open>xs\<close> tier and a
  non-empty \<^verbatim>\<open>xl\<close> tier the table of the model, an object of the input, receives the
  item \<^verbatim>\<open>xxl\<close>; with a non-empty \<^verbatim>\<open>xs\<close> tier the item of the model in the \<^verbatim>\<open>data\<close>
  dictionary of the input is bound to a new table. The function returns its argument.
\<close>

theorem not_pure_counterexample:
  "add_enhanced_tiers
     \<lparr>data_item = Some (DataDict [(''m'', Ref 0)]),
      objs = [[(''xs'', PDict []), (''xl'', PDict [(''c'', PInt 3)])]]\<rparr>
   = (None,
      \<lparr>data_item = Some (DataDict [(''m'', Ref 0)]),
       objs = [[(''xs'', PDict []), (''xl'', PDict [(''c'', PInt 3)]),
                (''xxl'', PDict [(''c'', PInt 3), (''max_train_epochs'', PInt 8),
                   (''train_batch_size'', PInt 16), (''gradient_accumulation_steps'', PInt 1),
                   (''noise_offset'', PFloat (fl_lit 45 1000)),
                   (''lr_scheduler'', PStr ''cosine''),
                   (''lr_warmup_steps'', PInt 150),
                   (''max_data_loader_n_workers'', PInt 8)])]]\<rparr>)
   \<and> add_enhanced_tiers
     \<lparr>data_item = Some (DataDict [(''m'', Ref 0)]),
      objs = [[(''xs'', PDict [(''a'', PInt 1)])]]\<rparr>
   = (None,
      \<lparr>data_item = Some (DataDict [(''m'', Ref 1)]),
       objs = [[(''xs'', PDict [(''a'', PInt 1)])],
               [(''xxs'', PDict [(''a'', PInt 1), (''max_train_epochs'', PInt 45),
                   (''train_batch_size'', PInt 2), (''gradient_accumulation_steps'', PInt 4),
                   (''noise_offset'', PFloat (fl_lit 15 1000)),
                   (''lr_scheduler'', PStr ''constant_with_warmup''),
                   (''max_data_loader_n_workers'', PInt 2)]),
                (''xs'', PDict [(''a'', PInt 1)])]]\<rparr>)"
  by code_simp

text \<open>
  Claim C2, amended. The call works in place on the registry it is given and returns
  it. On a well-formed store, whether it returns or raises, the store stays well-formed
  and: the models of the registry and their order are as before; every object that was
  there is still there and differs at most in its item \<^verbatim>\<open>xxl\<close>; the table of every model
  holds under every key other than \<^verbatim>\<open>xxs\<close> and \<^verbatim>\<open>xxl\<close> what it held before. One turn of
  the loop leaves as the table of its model the value \<open>augment\<close> computes from the table
  before, and raises when \<open>augment\<close> does.
\<close>

theorem add_enhanced_tiers_in_place:
  "(\<forall>h e h'. wf_store h \<and> add_enhanced_tiers h = (e, h') \<longrightarrow> wf_store h' \<and> frame h h')
   \<and> (\<forall>h k a. wf_store h \<and> map_of (data_items h) k = Some (Ref a) \<longrightarrow>
        (case augment (objs h ! a) of
           Inl e \<Rightarrow> model_step k h = Inl e
         | Inr T' \<Rightarrow> (\<exists>h'. model_step k h = Inr h' \<and> table_of h' k = Some T')))"
proof (intro conjI allI impI; (elim conjE)?)
  fix h e h'
  assume "wf_store h" "add_enhanced_tiers h = (e, h')"
  then have r: "wf_store h' \<and> frame h h'"
    by (rule add_enhanced_tiers_frame)
  from r show "wf_store h'" by (rule conjunct1)
  from r show "frame h h'" by (rule conjunct2)
next
  fix h k a
  assume "wf_store h" "map_of (data_items h) k = Some (Ref a)"
  then show "case augment (objs h ! a) of
           Inl e \<Rightarrow> model_step k h = Inl e
         | Inr T' \<Rightarrow> (\<exists>h'. model_step k h = Inr h' \<and> table_of h' k = Some T')"
    by (rule model_step_augment)
qed

theorem add_enhanced_tiers_in_place_witness:
  "wf_store \<lparr>data_item = Some (DataDict [(''m'', Ref 0), (''n'', Val (PInt 1))]),
             objs = [[(''xs'', PDict [(''a'', PInt 1)]), (''s'', PDict [(''b'', PInt 2)])]]\<rparr>
   \<and> add_enhanced_tiers
        \<lparr>data_item = Some (DataDict [(''m'', Ref 0), (''n'', Val (PInt 1))]),
         objs = [[(''xs'', PDict [(''a'', PInt 1)]), (''s'', PDict [(''b'', PInt 2)])]]\<rparr>
     = (None,
        \<lparr>data_item = Some (DataDict [(''m'', Ref 1), (''n'', Val (PInt 1))]),
         objs = [[(''xs'', PDict [(''a'', PInt 1)]), (''s'', PDict [(''b'', PInt 2)])],
                 [(''xxs'', PDict [(''a'', PInt 1), (''max_train_epochs'', PInt 45),
                     (''train_batch_size'', PInt 2), (''gradient_accumulation_steps'', PInt 4),
                     (''noise_offset'', PFloat (fl_lit 15 1000)),
                     (''lr_scheduler'', PStr ''constant_with_warmup''),
                     (''max_data_loader_n_workers'', PInt 2)]),
                  (''xs'', PDict [(''a'', PInt 1)]), (''s'', PDict [(''b'', PInt 2)])]]\<rparr>)
   \<and> frame
        \<lparr>data_item = Some (DataDict [(''m'', Ref 0), (''n'', Val (PInt 1))]),
         objs = [[(''xs'', PDict [(''a'', PInt 1)]), (''s'', PDict [(''b'', PInt 2)])]]\<rparr>
        \<lparr>data_item = Some (DataDict [(''m'', Ref 1), (''n'', Val (PInt 1))]),
         objs = [[(''xs'', PDict [(''a'', PInt 1)]), (''s'', PDict [(''b'', PInt 2)])],
                 [(''xxs'', PDict [(''a'', PInt 1), (''max_train_epochs'', PInt 45),
                     (''train_batch_size'', PInt 2), (''gradient_accumulation_steps'', PInt 4),
                     (''noise_offset'', PFloat (fl_lit 15 1000)),
                     (''lr_scheduler'', PStr ''constant_with_warmup''),
                     (''max_data_loader_n_workers'', PInt 2)]),
                  (''xs'', PDict [(''a'', PInt 1)]), (''s'', PDict [(''b'', PInt 2)])]]\<rparr>"
proof -
  define h where "h = \<lparr>data_item = Some (DataDict [(''m'', Ref 0), (''n'', Val (PInt 1))]),
             objs = [[(''xs'', PDict [(''a'', PInt 1)]), (''s'', PDict [(''b'', PInt 2)])]]\<rparr>"
  define h' where "h' = \<lparr>data_item = Some (DataDict [(''m'', Ref 1), (''n'', Val (PInt 1))]),
         objs = [[(''xs'', PDict [(''a'', PInt 1)]), (''s'', PDict [(''b'', PInt 2)])],
                 [(''xxs'', PDict [(''a'', PInt 1), (''max_train_epochs'', PInt 45),
                     (''train_batch_size'', PInt 2), (''gradient_accumulation_steps'', PInt 4),
                     (''noise_offset'', PFloat (fl_lit 15 1000)),
                     (''lr_scheduler'', PStr ''constant_with_warmup''),
                     (''max_data_loader_n_workers'', PInt 2)]),
                  (''xs'', PDict [(''a'', PInt 1)]), (''s'', PDict [(''b'', PInt 2)])]]\<rparr>"
  have w: "wf_store h"
    by (simp add: h_def wf_store_def data_items_def)
  have r: "add_enhanced_tiers h = (None, h')"
    unfolding h_def h'_def by code_simp
  from w r have "wf_store h \<and> add_enhanced_tiers h = (None, h')"
    by (intro conjI)
  from add_enhanced_tiers_in_place [THEN conjunct1, THEN spec, THEN spec, THEN spec, THEN mp,
      OF this]
  have "frame h h'"
    by (rule conjunct2)
  with w r show ?thesis
    unfolding h_def h'_def by (intro conjI)
qed

end
